theory Spec2Isabelle
  imports Complex_Main
begin

section \<open>Data model\<close>

text \<open>
  Python values that appear in attribute dictionaries. A point is a list of three floats,
  a frame is a list of three points. Floats are modelled by exact reals.
\<close>

datatype pyval = PNone | PBool bool | PStr string | PFloat real | PList "pyval list"

type_synonym attrs = "string \<rightharpoonup> pyval"

type_synonym point = "real \<times> real \<times> real"

type_synonym basis = "point \<times> point \<times> point"

definition py_point :: "point \<Rightarrow> pyval" where
  "py_point p = (case p of (x, y, z) \<Rightarrow> PList [PFloat x, PFloat y, PFloat z])"

definition py_basis :: "basis \<Rightarrow> pyval" where
  "py_basis b = (case b of (u, v, w) \<Rightarrow> PList [py_point u, py_point v, py_point w])"

datatype error = KeyError | LinAlgError | GeometryError | ValueError | AttributeError
  | TopologicalError

text \<open>
  A statement that raises leaves the object it was mutating as it is at that moment:
  the outcome of a run is either the final state, or the exception together with the
  state reached when it was raised.
\<close>

datatype 's result = Done 's | Raised error 's

fun final :: "'s result \<Rightarrow> 's" where
  "final (Done s) = s"
| "final (Raised e s) = s"

fun for_each :: "('a \<Rightarrow> 's \<Rightarrow> 's result) \<Rightarrow> 'a list \<Rightarrow> 's \<Rightarrow> 's result" where
  "for_each f [] s = Done s"
| "for_each f (x # xs) s =
     (case f x s of Raised e s' \<Rightarrow> Raised e s' | Done s' \<Rightarrow> for_each f xs s')"

fun map_or_raise :: "('a \<Rightarrow> error + 'b) \<Rightarrow> 'a list \<Rightarrow> error + 'b list" where
  "map_or_raise f [] = Inr []"
| "map_or_raise f (x # xs) =
     (case f x of Inl e \<Rightarrow> Inl e
      | Inr y \<Rightarrow> (case map_or_raise f xs of Inl e \<Rightarrow> Inl e | Inr ys \<Rightarrow> Inr (y # ys)))"

text \<open>A dict comprehension over a list of pairs: a later pair overwrites an earlier one.\<close>

definition dict_of :: "('k \<times> 'v) list \<Rightarrow> 'k \<rightharpoonup> 'v" where
  "dict_of kvs = fold (\<lambda>kv m. m(fst kv \<mapsto> snd kv)) kvs Map.empty"

definition getitem :: "('k \<rightharpoonup> 'v) \<Rightarrow> 'k \<Rightarrow> error + 'v" where
  "getitem m k = (case m k of None \<Rightarrow> Inl KeyError | Some v \<Rightarrow> Inr v)"

subsection \<open>Blocks\<close>

text \<open>
  Modelled from the spec: the Block class (a mesh) is not among the sources. A block
  provides its vertex positions (ordered, unique per vertex key), its face vertex-loops,
  a centroid accessor and a per-face frame accessor (origin and basis); the frame
  accessor fails with a GeometryError on a degenerate face. The record holds what the
  accessors return, as the pass gets it: a basis is taken as it comes, orthonormal or
  not.
\<close>

record block =
  vertex_xyz :: "(int \<times> point) list"
  face_loops :: "(int \<times> int list) list"
  frames :: "error + (int \<times> point \<times> basis) list"
  centroid :: point

definition vertex_coordinates_b :: "block \<Rightarrow> int \<Rightarrow> error + point" where
  "vertex_coordinates_b b key = getitem (dict_of (vertex_xyz b)) key"

definition face_vertices :: "block \<Rightarrow> int \<Rightarrow> error + int list" where
  "face_vertices b fkey = getitem (dict_of (face_loops b)) fkey"

definition face_coordinates :: "block \<Rightarrow> int \<Rightarrow> error + point list" where
  "face_coordinates b fkey =
     (case face_vertices b fkey of Inl e \<Rightarrow> Inl e
      | Inr keys \<Rightarrow> map_or_raise (vertex_coordinates_b b) keys)"

subsection \<open>Assembly\<close>

text \<open>
  Modelled from the spec: the graph base class that Assembly inherits from is not among
  the sources. Nodes are kept in insertion order with their attribute dictionaries; an
  edge is an ordered pair of node keys with one attribute dictionary, so that
  \<open>k in assembly.edge and n in assembly.edge[k]\<close> is \<open>edge (k, n) \<noteq> None\<close>; new
  nodes and edges start from the default attributes. Node keys are integers, as the keys
  of the block dictionary are. The adjacency bookkeeping of the base class is left out.
\<close>

record assembly =
  vertex :: "(int \<times> attrs) list"
  edge :: "int \<times> int \<rightharpoonup> attrs"
  blocks :: "int \<rightharpoonup> block"
  default_vertex_attributes :: attrs
  default_edge_attributes :: attrs
  max_int_key :: int

definition vertices :: "assembly \<Rightarrow> int list" where
  "vertices a = map fst (vertex a)"

definition vertex_coordinates :: "assembly \<Rightarrow> int \<Rightarrow> error + pyval list" where
  "vertex_coordinates a key =
     (case getitem (dict_of (vertex a)) key of Inl e \<Rightarrow> Inl e
      | Inr d \<Rightarrow> map_or_raise (getitem d) [''x'', ''y'', ''z''])"

fun update_entry :: "int \<Rightarrow> attrs \<Rightarrow> (int \<times> attrs) list \<Rightarrow> (int \<times> attrs) list" where
  "update_entry key attr [] = [(key, attr)]"
| "update_entry key attr ((k, d) # rest) =
     (if k = key then (k, d ++ attr) # rest else (k, d) # update_entry key attr rest)"

definition add_vertex :: "assembly \<Rightarrow> int option \<Rightarrow> attrs option \<Rightarrow> attrs \<Rightarrow> int \<times> assembly" where
  "add_vertex a key attr_dict kwattr =
     (let attr = default_vertex_attributes a
                   ++ ((case attr_dict of None \<Rightarrow> Map.empty | Some d \<Rightarrow> d) ++ kwattr);
          key' = (case key of None \<Rightarrow> max_int_key a + 1 | Some k \<Rightarrow> k);
          a1 = (if max_int_key a < key' then a\<lparr>max_int_key := key'\<rparr> else a)
      in (key', a1\<lparr>vertex := update_entry key' attr (vertex a1)\<rparr>))"

definition add_edge :: "assembly \<Rightarrow> int \<Rightarrow> int \<Rightarrow> attrs \<Rightarrow> assembly" where
  "add_edge a u v attr_dict =
     (let attr = default_edge_attributes a ++ attr_dict;
          a1 = (if u \<in> set (vertices a) then a else snd (add_vertex a (Some u) None Map.empty));
          a2 = (if v \<in> set (vertices a1) then a1
                else snd (add_vertex a1 (Some v) None Map.empty));
          data = (case edge a2 (u, v) of None \<Rightarrow> Map.empty | Some d \<Rightarrow> d) ++ attr
      in a2\<lparr>edge := (edge a2)((u, v) \<mapsto> data)\<rparr>)"

text \<open>The state set up by \<open>Assembly.__init__\<close>.\<close>

definition Assembly_init :: assembly where
  "Assembly_init =
     \<lparr> vertex = [],
       edge = Map.empty,
       blocks = Map.empty,
       default_vertex_attributes =
         [''x'' \<mapsto> PFloat 0, ''y'' \<mapsto> PFloat 0, ''z'' \<mapsto> PFloat 0, ''is_support'' \<mapsto> PBool False],
       default_edge_attributes =
         [''interface_points'' \<mapsto> PNone, ''interface_type'' \<mapsto> PNone,
          ''niterface_size'' \<mapsto> PNone, ''interface_uvw'' \<mapsto> PNone,
          ''interface_origin'' \<mapsto> PNone, ''interface_forces'' \<mapsto> PNone],
       max_int_key = -1 \<rparr>"

definition centroid_kw :: "block \<Rightarrow> attrs" where
  "centroid_kw b =
     (case centroid b of (x, y, z) \<Rightarrow> [''x'' \<mapsto> PFloat x, ''y'' \<mapsto> PFloat y, ''z'' \<mapsto> PFloat z])"

definition add_block :: "assembly \<Rightarrow> block \<Rightarrow> attrs option \<Rightarrow> attrs \<Rightarrow> int \<times> assembly" where
  "add_block a b attr_dict kwattr =
     (let attr = (case attr_dict of None \<Rightarrow> Map.empty | Some d \<Rightarrow> d) ++ kwattr;
          (key, a1) = add_vertex a None (Some attr) (centroid_kw b)
      in (key, a1\<lparr>blocks := (blocks a1)(key \<mapsto> b)\<rparr>))"

definition add_support :: "assembly \<Rightarrow> block \<Rightarrow> attrs option \<Rightarrow> attrs \<Rightarrow> int \<times> assembly" where
  "add_support a b attr_dict kwattr =
     (let (key, a1) = add_vertex a None None ((centroid_kw b)(''is_support'' \<mapsto> PBool True))
      in (key, a1\<lparr>blocks := (blocks a1)(key \<mapsto> b)\<rparr>))"

text \<open>The attribute dictionary of a node.\<close>

definition node :: "assembly \<Rightarrow> int \<Rightarrow> attrs option" where
  "node a key = dict_of (vertex a) key"

section \<open>Geometry primitives\<close>

definition vsub :: "point \<Rightarrow> point \<Rightarrow> point" where
  "vsub p q = (case p of (a, b, c) \<Rightarrow> case q of (x, y, z) \<Rightarrow> (a - x, b - y, c - z))"

definition vadd :: "point \<Rightarrow> point \<Rightarrow> point" where
  "vadd p q = (case p of (a, b, c) \<Rightarrow> case q of (x, y, z) \<Rightarrow> (a + x, b + y, c + z))"

definition smult :: "real \<Rightarrow> point \<Rightarrow> point" where
  "smult k p = (case p of (a, b, c) \<Rightarrow> (k * a, k * b, k * c))"

text \<open>A 3x3 matrix is given by its three rows.\<close>

definition transpose3 :: "basis \<Rightarrow> basis" where
  "transpose3 m =
     (case m of ((a, b, c), (d, e, f), (g, h, i)) \<Rightarrow> ((a, d, g), (b, e, h), (c, f, i)))"

definition det3 :: "basis \<Rightarrow> real" where
  "det3 m =
     (case m of ((a, b, c), (d, e, f), (g, h, i)) \<Rightarrow>
        a * (e * i - f * h) - b * (d * i - f * g) + c * (d * h - e * g))"

text \<open>
  Modelled from the spec: the linear solver is a library routine. Projection solves for
  the point's coordinates in the face's basis (a linear solve against the 3x3 basis); a
  singular matrix is an error. \<open>solve m bs\<close> solves \<open>m x = b\<close> for every right-hand
  side \<open>b\<close> in exact arithmetic, by Cramer's rule on the columns of \<open>m\<close>.
\<close>

definition solve :: "basis \<Rightarrow> point list \<Rightarrow> error + point list" where
  "solve m bs =
     (if det3 m = 0 then Inl LinAlgError
      else case transpose3 m of (c1, c2, c3) \<Rightarrow>
        Inr (map (\<lambda>b. (det3 (b, c2, c3) / det3 m,
                         det3 (c1, b, c3) / det3 m,
                         det3 (c1, c2, b) / det3 m)) bs))"

text \<open>
  Modelled from the spec: the inverse projection is a library routine. It maps local
  points back to world coordinates by the same basis and origin:
  \<open>xyz = uvw\<^sup>T rst + o\<close>.
\<close>

definition global_coords_numpy :: "point \<Rightarrow> basis \<Rightarrow> point list \<Rightarrow> point list" where
  "global_coords_numpy o' uvw rst =
     (case uvw of (u, v, w) \<Rightarrow>
        map (\<lambda>p. case p of (r, s, t) \<Rightarrow>
               vadd (vadd (vadd (smult r u) (smult s v)) (smult t w)) o') rst)"

text \<open>
  The two projections as \<open>identify_interfaces\<close> applies them: the local coordinates of
  world points with respect to a frame, and the world coordinates of the local points
  with their third coordinate set to zero.
\<close>

definition local_coords :: "point \<Rightarrow> basis \<Rightarrow> point list \<Rightarrow> error + point list" where
  "local_coords o' uvw xyz = solve (transpose3 uvw) (map (\<lambda>p. vsub p o') xyz)"

definition flatten_z :: "point list \<Rightarrow> point list" where
  "flatten_z coords = map (\<lambda>p. case p of (x, y, z) \<Rightarrow> (x, y, 0)) coords"

section \<open>Library interfaces: spatial index and polygon engine\<close>

text \<open>
  The k-d tree and the polygon type are library objects; the identification is written
  against their operations, which are parameters here. Each operation that can raise in
  the library returns an error or a value.
\<close>

record ('t, 'g) engine =
  cKDTree :: "pyval list list \<Rightarrow> error + 't"
  query :: "'t \<Rightarrow> pyval list \<Rightarrow> int \<Rightarrow> error + real list \<times> nat list"
  Polygon :: "point list \<Rightarrow> error + 'g"
  area :: "'g \<Rightarrow> real"
  intersects :: "'g \<Rightarrow> 'g \<Rightarrow> error + bool"
  intersection :: "'g \<Rightarrow> 'g \<Rightarrow> error + 'g"
  exterior_coords :: "'g \<Rightarrow> error + point list"

section \<open>Interface identification\<close>

definition find_nearest_neighbours ::
  "('t, 'g) engine \<Rightarrow> pyval list list \<Rightarrow> int \<Rightarrow> error + (real list \<times> nat list) list" where
  "find_nearest_neighbours eng cloud nmax =
     (case cKDTree eng cloud of Inl e \<Rightarrow> Inl e
      | Inr tree \<Rightarrow> map_or_raise (\<lambda>root. query eng tree root nmax) cloud)"

text \<open>The attribute dictionary written for an accepted intersection.\<close>

definition interface_attr :: "real \<Rightarrow> point list \<Rightarrow> point \<Rightarrow> basis \<Rightarrow> attrs" where
  "interface_attr a coords origin uvw =
     [''interface_type'' \<mapsto> PStr ''face_face'',
      ''interface_size'' \<mapsto> PFloat a,
      ''interface_points'' \<mapsto> PList (map py_point (butlast coords)),
      ''interface_origin'' \<mapsto> py_point origin,
      ''interface_uvw'' \<mapsto> py_basis uvw]"

text \<open>
  From the polygon of a neighbour face on: the degenerate-area test, the intersection
  test, the area threshold and the insertion of the edge.
\<close>

definition polygon_step ::
  "('t, 'g) engine \<Rightarrow> real \<Rightarrow> int \<Rightarrow> point \<Rightarrow> basis \<Rightarrow> 'g \<Rightarrow> int \<Rightarrow> point list
     \<Rightarrow> assembly \<Rightarrow> assembly result" where
  "polygon_step eng amin k origin uvw p0 n rst1 s =
     (case Polygon eng rst1 of Inl e \<Rightarrow> Raised e s
      | Inr p1 \<Rightarrow>
          (if area eng p1 = 0 then Done s
           else (case intersects eng p0 p1 of Inl e \<Rightarrow> Raised e s
                 | Inr b \<Rightarrow>
                     (if \<not> b then Done s
                      else (case intersection eng p0 p1 of Inl e \<Rightarrow> Raised e s
                            | Inr isec \<Rightarrow>
                                (if amin \<le> area eng isec then
                                   (case exterior_coords eng isec of Inl e \<Rightarrow> Raised e s
                                    | Inr cs \<Rightarrow>
                                        Done (add_edge s k n
                                                (interface_attr (area eng isec)
                                                   (global_coords_numpy origin uvw (flatten_z cs))
                                                   origin uvw)))
                                 else Done s))))))"

text \<open>The body of the loop over the faces \<open>f1\<close> of a neighbour.\<close>

definition face_step ::
  "('t, 'g) engine \<Rightarrow> real \<Rightarrow> real \<Rightarrow> int \<Rightarrow> point \<Rightarrow> basis \<Rightarrow> 'g \<Rightarrow> int
     \<Rightarrow> (int \<rightharpoonup> point) \<Rightarrow> int \<times> int list \<Rightarrow> assembly \<Rightarrow> assembly result" where
  "face_step eng tmax amin k origin uvw p0 n rst f1 s =
     (case map_or_raise (getitem rst) (snd f1) of Inl e \<Rightarrow> Raised e s
      | Inr rst1 \<Rightarrow>
          if list_ex (\<lambda>p. case p of (r, s, t) \<Rightarrow> tmax < \<bar>t\<bar>) rst1 then Done s
          else polygon_step eng amin k origin uvw p0 n rst1 s)"

text \<open>The body of the loop over the neighbour indices \<open>j\<close>.\<close>

definition nbr_step ::
  "('t, 'g) engine \<Rightarrow> real \<Rightarrow> real \<Rightarrow> (nat \<rightharpoonup> int) \<Rightarrow> int \<Rightarrow> point \<Rightarrow> basis \<Rightarrow> 'g
     \<Rightarrow> nat \<Rightarrow> assembly \<Rightarrow> assembly result" where
  "nbr_step eng tmax amin index_key k origin uvw p0 j s =
     (case index_key j of None \<Rightarrow> Raised KeyError s
      | Some n \<Rightarrow>
          (if n = k then Done s
           else if edge s (k, n) \<noteq> None then Done s
           else if edge s (n, k) \<noteq> None then Done s
           else (case blocks s n of None \<Rightarrow> Raised KeyError s
                 | Some nbr \<Rightarrow>
                     (case local_coords origin uvw (map snd (vertex_xyz nbr)) of
                        Inl e \<Rightarrow> Raised e s
                      | Inr rstl \<Rightarrow>
                          for_each
                            (face_step eng tmax amin k origin uvw p0 n
                               (dict_of (zip (map fst (vertex_xyz nbr)) rstl)))
                            (face_loops nbr) s))))"

text \<open>The body of the loop over the frames of the base block.\<close>

definition base_face_step ::
  "('t, 'g) engine \<Rightarrow> real \<Rightarrow> real \<Rightarrow> (nat \<rightharpoonup> int) \<Rightarrow> int \<Rightarrow> block \<Rightarrow> nat list
     \<Rightarrow> int \<times> point \<times> basis \<Rightarrow> assembly \<Rightarrow> assembly result" where
  "base_face_step eng tmax amin index_key k blk nbrs fr s =
     (case fr of (f0, origin, uvw) \<Rightarrow>
        (case face_coordinates blk f0 of Inl e \<Rightarrow> Raised e s
         | Inr xyz0 \<Rightarrow>
             (case local_coords origin uvw xyz0 of Inl e \<Rightarrow> Raised e s
              | Inr rst0 \<Rightarrow>
                  (case Polygon eng rst0 of Inl e \<Rightarrow> Raised e s
                   | Inr p0 \<Rightarrow>
                       for_each (nbr_step eng tmax amin index_key k origin uvw p0) nbrs s))))"

text \<open>The body of the loop over the base blocks \<open>k\<close>.\<close>

definition block_step ::
  "('t, 'g) engine \<Rightarrow> real \<Rightarrow> real \<Rightarrow> bool \<Rightarrow> (int \<rightharpoonup> nat) \<Rightarrow> (nat \<rightharpoonup> int)
     \<Rightarrow> (real list \<times> nat list) list \<Rightarrow> int \<Rightarrow> assembly \<Rightarrow> assembly result" where
  "block_step eng tmax amin face_face key_index index_key block_nnbrs k s =
     (case key_index k of None \<Rightarrow> Raised KeyError s
      | Some i \<Rightarrow>
          (case blocks s k of None \<Rightarrow> Raised KeyError s
           | Some blk \<Rightarrow>
               (case frames blk of Inl e \<Rightarrow> Raised e s
                | Inr frs \<Rightarrow>
                    if face_face then
                      for_each
                        (base_face_step eng tmax amin index_key k blk (snd (block_nnbrs ! i)))
                        frs s
                    else Done s)))"

text \<open>
  The pass itself. Its progress output (the key of each base block is printed) is left
  out; \<open>lmin\<close>, \<open>face_edge\<close> and \<open>face_vertex\<close> are parameters that the
  source never reads.
\<close>

definition identify_interfaces ::
  "('t, 'g) engine \<Rightarrow> assembly \<Rightarrow> int \<Rightarrow> real \<Rightarrow> real \<Rightarrow> real \<Rightarrow> bool \<Rightarrow> bool \<Rightarrow> bool
     \<Rightarrow> assembly result" where
  "identify_interfaces eng a nmax tmax amin lmin face_face face_edge face_vertex =
     (let keys = vertices a;
          key_index = dict_of (zip keys [0..<length keys]);
          index_key = dict_of (zip [0..<length keys] keys)
      in case map_or_raise (getitem (blocks a)) keys of Inl e \<Rightarrow> Raised e a
         | Inr blks \<Rightarrow>
             (case map_or_raise (vertex_coordinates a) keys of Inl e \<Rightarrow> Raised e a
              | Inr block_cloud \<Rightarrow>
                  (case find_nearest_neighbours eng block_cloud (min nmax (int (length blks))) of
                     Inl e \<Rightarrow> Raised e a
                   | Inr block_nnbrs \<Rightarrow>
                       for_each
                         (block_step eng tmax amin face_face key_index index_key block_nnbrs)
                         keys a)))"

section \<open>An engine for axis-aligned rectangles, and box assemblies\<close>

text \<open>
  To run the identification on concrete assemblies, the library operations are
  instantiated for faces that project to axis-aligned rectangles: a polygon is its closed
  ring of coordinates, its area is given by the shoelace formula, two rectangles
  intersect where their extents overlap, and an intersection without interior is not a
  polygon and has no exterior ring. The spatial index returns the indices of the
  \<open>k\<close> points nearest to the query point, the point itself included, with their
  squared distances (the identification never reads the distances).
\<close>

datatype geom = Poly "point list" | NoPoly

fun float_of :: "pyval \<Rightarrow> real" where
  "float_of (PFloat x) = x"
| "float_of v = 0"

definition dist2 :: "pyval list \<Rightarrow> pyval list \<Rightarrow> real" where
  "dist2 p q = sum_list (map (\<lambda>pq. (float_of (fst pq) - float_of (snd pq))\<^sup>2) (zip p q))"

definition nearest :: "pyval list list \<Rightarrow> pyval list \<Rightarrow> int \<Rightarrow> error + real list \<times> nat list" where
  "nearest cloud q k =
     (if k < 1 then Inl ValueError
      else (let js = take (nat k) (sort_key (\<lambda>j. dist2 q (cloud ! j)) [0..<length cloud])
            in Inr (map (\<lambda>j. dist2 q (cloud ! j)) js, js)))"

fun shoelace :: "point list \<Rightarrow> real" where
  "shoelace (p # q # ps) = (fst p * fst (snd q) - fst q * fst (snd p)) + shoelace (q # ps)"
| "shoelace ps = 0"

fun geom_area :: "geom \<Rightarrow> real" where
  "geom_area (Poly ring) = \<bar>shoelace ring\<bar> / 2"
| "geom_area NoPoly = 0"

definition lower :: "(point \<Rightarrow> real) \<Rightarrow> point list \<Rightarrow> real" where
  "lower f ps = fold (\<lambda>p m. min (f p) m) (tl ps) (f (hd ps))"

definition upper :: "(point \<Rightarrow> real) \<Rightarrow> point list \<Rightarrow> real" where
  "upper f ps = fold (\<lambda>p m. max (f p) m) (tl ps) (f (hd ps))"

definition px :: "point \<Rightarrow> real" where
  "px p = fst p"

definition py :: "point \<Rightarrow> real" where
  "py p = fst (snd p)"

fun rect_intersects :: "geom \<Rightarrow> geom \<Rightarrow> error + bool" where
  "rect_intersects (Poly a) (Poly b) =
     Inr (max (lower px a) (lower px b) \<le> min (upper px a) (upper px b)
          \<and> max (lower py a) (lower py b) \<le> min (upper py a) (upper py b))"
| "rect_intersects a b = Inr False"

fun rect_intersection :: "geom \<Rightarrow> geom \<Rightarrow> error + geom" where
  "rect_intersection (Poly a) (Poly b) =
     (let x0 = max (lower px a) (lower px b); x1 = min (upper px a) (upper px b);
          y0 = max (lower py a) (lower py b); y1 = min (upper py a) (upper py b)
      in if x0 < x1 \<and> y0 < y1
         then Inr (Poly [(x0, y0, 0), (x1, y0, 0), (x1, y1, 0), (x0, y1, 0), (x0, y0, 0)])
         else Inr NoPoly)"
| "rect_intersection a b = Inr NoPoly"

fun geom_exterior :: "geom \<Rightarrow> error + point list" where
  "geom_exterior (Poly ring) = Inr ring"
| "geom_exterior NoPoly = Inl AttributeError"

definition rect_polygon :: "point list \<Rightarrow> error + geom" where
  "rect_polygon ps =
     (if ps = [] then Inr NoPoly
      else if length ps < 3 then Inl ValueError
      else Inr (Poly (ps @ [hd ps])))"

definition rect_engine :: "(pyval list list, geom) engine" where
  "rect_engine =
     \<lparr> cKDTree = Inr, query = nearest, Polygon = rect_polygon, area = geom_area,
       intersects = rect_intersects, intersection = rect_intersection,
       exterior_coords = geom_exterior \<rparr>"

text \<open>
  The unit cube with its lowest corner at \<open>(x, y, z)\<close>: faces 0 to 5 are the bottom,
  top, front, right, back and left face, each with its outward normal as third axis of
  the frame and its centre as origin.
\<close>

definition cube :: "point \<Rightarrow> block" where
  "cube c = (case c of (x, y, z) \<Rightarrow>
     \<lparr> vertex_xyz =
         [(0, (x, y, z)), (1, (x + 1, y, z)), (2, (x + 1, y + 1, z)), (3, (x, y + 1, z)),
          (4, (x, y, z + 1)), (5, (x + 1, y, z + 1)), (6, (x + 1, y + 1, z + 1)),
          (7, (x, y + 1, z + 1))],
       face_loops =
         [(0, [0, 3, 2, 1]), (1, [4, 5, 6, 7]), (2, [0, 1, 5, 4]),
          (3, [1, 2, 6, 5]), (4, [2, 3, 7, 6]), (5, [3, 0, 4, 7])],
       frames = Inr
         [(0, (x + 1/2, y + 1/2, z), ((0, 1, 0), (1, 0, 0), (0, 0, -1))),
          (1, (x + 1/2, y + 1/2, z + 1), ((1, 0, 0), (0, 1, 0), (0, 0, 1))),
          (2, (x + 1/2, y, z + 1/2), ((1, 0, 0), (0, 0, 1), (0, -1, 0))),
          (3, (x + 1, y + 1/2, z + 1/2), ((0, 1, 0), (0, 0, 1), (1, 0, 0))),
          (4, (x + 1/2, y + 1, z + 1/2), ((-1, 0, 0), (0, 0, 1), (0, 1, 0))),
          (5, (x, y + 1/2, z + 1/2), ((0, -1, 0), (0, 0, 1), (-1, 0, 0)))],
       centroid = (x + 1/2, y + 1/2, z + 1/2) \<rparr>)"

text \<open>Two unit cubes, the second stacked on the first, added with \<open>add_block\<close>.\<close>

definition two_cubes :: assembly where
  "two_cubes =
     snd (add_block (snd (add_block Assembly_init (cube (0, 0, 0)) None Map.empty))
            (cube (0, 0, 1)) None Map.empty)"

section \<open>The relation between the assembly before and during a pass\<close>

text \<open>
  \<open>interfaces_added amin a s\<close>: the assembly \<open>s\<close> is \<open>a\<close> with a different edge
  dictionary, and every edge of \<open>s\<close> is either an edge of \<open>a\<close> with its attributes, or
  a new edge between two distinct nodes that \<open>a\<close> connects in neither direction and
  \<open>s\<close> connects in this direction only, carrying the default edge attributes
  overwritten by the attributes of an intersection of area at least \<open>amin\<close>.
\<close>

definition interfaces_added :: "real \<Rightarrow> assembly \<Rightarrow> assembly \<Rightarrow> bool" where
  "interfaces_added amin a s \<longleftrightarrow>
     s = a\<lparr>edge := edge s\<rparr> \<and>
     (\<forall>k n. edge s (k, n) = edge a (k, n) \<or>
        (k \<noteq> n \<and> edge a (k, n) = None \<and> edge a (n, k) = None \<and> edge s (n, k) = None \<and>
         (\<exists>x cs og uvw. amin \<le> x \<and>
            edge s (k, n) =
              Some (default_edge_attributes a
                      ++ interface_attr x (global_coords_numpy og uvw (flatten_z cs)) og uvw))))"

text \<open>\<open>covers s u\<close>: \<open>u\<close> is \<open>s\<close> with at least the connections of \<open>s\<close>.\<close>

definition covers :: "assembly \<Rightarrow> assembly \<Rightarrow> bool" where
  "covers s u \<longleftrightarrow>
     u = s\<lparr>edge := edge u\<rparr> \<and> (\<forall>k n. edge s (k, n) \<noteq> None \<longrightarrow> edge u (k, n) \<noteq> None)"

text \<open>
  The first pass over the two stacked cubes, with the default tolerances.
\<close>

definition two_cubes_identified :: assembly where
  "two_cubes_identified =
     final (identify_interfaces rect_engine two_cubes 10 (1/1000000) (1/10) (1/1000)
              True False False)"

text \<open>
  The top face of the cube at the origin in its own frame: the unit square centred at the
  local origin.
\<close>

definition unit_square :: "point list" where
  "unit_square = [(-1/2, -1/2, 0), (1/2, -1/2, 0), (1/2, 1/2, 0), (-1/2, 1/2, 0)]"

section \<open>Further assemblies and faces\<close>



text \<open>Two unit cubes, the second one millionth above the top of the first.\<close>

definition gap_cubes :: assembly where
  "gap_cubes =
     snd (add_block (snd (add_block Assembly_init (cube (0, 0, 0)) None Map.empty))
            (cube (0, 0, 1 + 1/1000000)) None Map.empty)"

text \<open>
  The bottom face of the upper cube in the frame of the top face of the lower one: every
  vertex is one millionth out of the plane.
\<close>

definition gap_face :: "point list" where
  "gap_face =
     [(-1/2, -1/2, 1/1000000), (-1/2, 1/2, 1/1000000), (1/2, 1/2, 1/1000000),
      (1/2, -1/2, 1/1000000)]"

text \<open>
  The cube at the origin with a zero-area face in front of its faces: face 0 is the
  sliver between the vertices 4 and 5 and a vertex 8 on the edge between them. The face
  is degenerate, so the frame accessor of the block fails.
\<close>

definition sliver_cube :: block where
  "sliver_cube =
     \<lparr> vertex_xyz =
         [(0, (0, 0, 0)), (1, (1, 0, 0)), (2, (1, 1, 0)), (3, (0, 1, 0)),
          (4, (0, 0, 1)), (5, (1, 0, 1)), (6, (1, 1, 1)), (7, (0, 1, 1)),
          (8, (1/2, 0, 1))],
       face_loops =
         [(0, [4, 8, 5]),
          (1, [0, 3, 2, 1]), (2, [4, 5, 6, 7]), (3, [0, 1, 5, 4]),
          (4, [1, 2, 6, 5]), (5, [2, 3, 7, 6]), (6, [3, 0, 4, 7])],
       frames = Inl GeometryError,
       centroid = (1/2, 1/2, 1/2) \<rparr>"

text \<open>The sliver cube with a unit cube stacked on it.\<close>

definition sliver_stack :: assembly where
  "sliver_stack =
     snd (add_block (snd (add_block Assembly_init sliver_cube None Map.empty))
            (cube (0, 0, 1)) None Map.empty)"

text \<open>
  The cube at the origin with a frame that is not a basis: the frame handed out for
  face 0 repeats its first axis. It serves to run the pass into the failure of the
  linear solve.
\<close>

definition skew_cube :: block where
  "skew_cube =
     (cube (0, 0, 0))
       \<lparr> frames := Inr
           [(0, (1/2, 1/2, 0), ((0, 1, 0), (0, 1, 0), (0, 0, -1))),
            (1, (1/2, 1/2, 1), ((1, 0, 0), (0, 1, 0), (0, 0, 1))),
            (2, (1/2, 0, 1/2), ((1, 0, 0), (0, 0, 1), (0, -1, 0))),
            (3, (1, 1/2, 1/2), ((0, 1, 0), (0, 0, 1), (1, 0, 0))),
            (4, (1/2, 1, 1/2), ((-1, 0, 0), (0, 0, 1), (0, 1, 0))),
            (5, (0, 1/2, 1/2), ((0, -1, 0), (0, 0, 1), (-1, 0, 0)))] \<rparr>"

text \<open>The skew cube with a unit cube stacked on it.\<close>

definition skew_stack :: assembly where
  "skew_stack =
     snd (add_block (snd (add_block Assembly_init skew_cube None Map.empty))
            (cube (0, 0, 1)) None Map.empty)"

section \<open>The face pairs of a pass\<close>

text \<open>
  \<open>base_face eng a k og uvw p0\<close>: block \<open>k\<close> has a face with frame \<open>(og, uvw)\<close>, and
  \<open>p0\<close> is the polygon of the face's vertices in the local coordinates of that frame, as
  the pass builds it for a base face.
\<close>

definition base_face :: "('t, 'g) engine \<Rightarrow> assembly \<Rightarrow> int \<Rightarrow> point \<Rightarrow> basis \<Rightarrow> 'g \<Rightarrow> bool" where
  "base_face eng a k og uvw p0 \<longleftrightarrow>
     (\<exists>blk frs f0 xyz0 rst0.
        blocks a k = Some blk \<and> frames blk = Inr frs \<and> (f0, og, uvw) \<in> set frs
        \<and> face_coordinates blk f0 = Inr xyz0 \<and> local_coords og uvw xyz0 = Inr rst0
        \<and> Polygon eng rst0 = Inr p0)"

text \<open>
  \<open>nbr_face a n og uvw rst1\<close>: \<open>rst1\<close> are the vertices of a face of block \<open>n\<close> in
  the local coordinates of the frame \<open>(og, uvw)\<close>, as the pass gathers them for a
  neighbour face.
\<close>

definition nbr_face :: "assembly \<Rightarrow> int \<Rightarrow> point \<Rightarrow> basis \<Rightarrow> point list \<Rightarrow> bool" where
  "nbr_face a n og uvw rst1 \<longleftrightarrow>
     (\<exists>nbr rstl f1.
        blocks a n = Some nbr
        \<and> local_coords og uvw (map snd (vertex_xyz nbr)) = Inr rstl
        \<and> f1 \<in> set (face_loops nbr)
        \<and> map_or_raise (getitem (dict_of (zip (map fst (vertex_xyz nbr)) rstl))) (snd f1)
            = Inr rst1)"

text \<open>
  \<open>candidate eng a nmax k n\<close>: block \<open>n\<close> is among the neighbours that the spatial
  index returns for block \<open>k\<close>, with the neighbour count clamped to the number of blocks.
\<close>

definition candidate :: "('t, 'g) engine \<Rightarrow> assembly \<Rightarrow> int \<Rightarrow> int \<Rightarrow> int \<Rightarrow> bool" where
  "candidate eng a nmax k n \<longleftrightarrow>
     (\<exists>cloud nn i j.
        map_or_raise (vertex_coordinates a) (vertices a) = Inr cloud
        \<and> find_nearest_neighbours eng cloud (min nmax (int (length (vertices a)))) = Inr nn
        \<and> dict_of (zip (vertices a) [0..<length (vertices a)]) k = Some i
        \<and> j \<in> set (snd (nn ! i))
        \<and> dict_of (zip [0..<length (vertices a)] (vertices a)) j = Some n)"

text \<open>
  \<open>passes eng tmax amin p0 rst1 isec cs\<close>: the neighbour face with local vertices
  \<open>rst1\<close> passes every test against the base polygon \<open>p0\<close>: no vertex is further than
  \<open>tmax\<close> out of the plane, its polygon has a non-zero area and intersects \<open>p0\<close>, the
  intersection \<open>isec\<close> has an area of at least \<open>amin\<close>, and \<open>cs\<close> is the exterior
  ring of the intersection.
\<close>

definition passes ::
  "('t, 'g) engine \<Rightarrow> real \<Rightarrow> real \<Rightarrow> 'g \<Rightarrow> point list \<Rightarrow> 'g \<Rightarrow> point list \<Rightarrow> bool" where
  "passes eng tmax amin p0 rst1 isec cs \<longleftrightarrow>
     (\<forall>p\<in>set rst1. \<bar>snd (snd p)\<bar> \<le> tmax)
     \<and> (\<exists>p1. Polygon eng rst1 = Inr p1 \<and> area eng p1 \<noteq> 0
              \<and> intersects eng p0 p1 = Inr True \<and> intersection eng p0 p1 = Inr isec)
     \<and> amin \<le> area eng isec
     \<and> exterior_coords eng isec = Inr cs"

text \<open>
  \<open>interfaces_traced eng tmax amin a s\<close>: every edge of \<open>s\<close> that is not an edge of
  \<open>a\<close> with its attributes carries the default edge attributes overwritten by the
  attributes of a pair of faces of its two blocks that passes every test: the area, the
  frame and the exterior ring are those of that pair.
\<close>

definition interfaces_traced ::
  "('t, 'g) engine \<Rightarrow> real \<Rightarrow> real \<Rightarrow> assembly \<Rightarrow> assembly \<Rightarrow> bool" where
  "interfaces_traced eng tmax amin a s \<longleftrightarrow>
     (\<forall>k n. edge s (k, n) = edge a (k, n) \<or>
        (\<exists>og uvw p0 rst1 isec cs.
           base_face eng a k og uvw p0 \<and> nbr_face a n og uvw rst1
           \<and> passes eng tmax amin p0 rst1 isec cs
           \<and> edge s (k, n) =
               Some (default_edge_attributes a
                       ++ interface_attr (area eng isec)
                            (global_coords_numpy og uvw (flatten_z cs)) og uvw)))"


text \<open>\<open>faces_have_vertices a\<close>: every face of every block of \<open>a\<close> has a vertex.\<close>

definition faces_have_vertices :: "assembly \<Rightarrow> bool" where
  "faces_have_vertices a \<longleftrightarrow>
     (\<forall>n nbr f. blocks a n = Some nbr \<and> f \<in> set (face_loops nbr) \<longrightarrow> snd f \<noteq> [])"

section \<open>Loops and dictionaries\<close>

lemma for_each_final_invariant:
  assumes "P s" and "\<And>x t. x \<in> set xs \<Longrightarrow> P t \<Longrightarrow> P (final (f x t))"
  shows "P (final (for_each f xs s))"
  using assms
proof (induction xs arbitrary: s)
  case Nil
  then show ?case by simp
next
  case (Cons x xs)
  have step: "P (final (f x s))" using Cons.prems by simp
  show ?case
  proof (cases "f x s")
    case (Done s')
    with step have "P s'" by simp
    then have "P (final (for_each f xs s'))"
      using Cons.IH Cons.prems(2) by simp
    with Done show ?thesis by simp
  next
    case (Raised e s')
    with step show ?thesis by simp
  qed
qed

lemma dict_of_snoc: "dict_of (kvs @ [(k, v)]) = (dict_of kvs)(k \<mapsto> v)"
  by (simp add: dict_of_def)

lemma dict_of_in_set: "dict_of kvs k = Some v \<Longrightarrow> (k, v) \<in> set kvs"
proof (induction kvs rule: rev_induct)
  case Nil
  then show ?case by (simp add: dict_of_def)
next
  case (snoc kv kvs)
  then show ?case
    by (cases kv) (auto simp: dict_of_snoc split: if_splits)
qed

lemma add_edge_existing:
  assumes "u \<in> set (vertices a)" and "v \<in> set (vertices a)"
  shows "add_edge a u v attr =
           a\<lparr>edge := (edge a)((u, v) \<mapsto>
               (case edge a (u, v) of None \<Rightarrow> Map.empty | Some d \<Rightarrow> d)
                 ++ (default_edge_attributes a ++ attr))\<rparr>"
  using assms by (simp add: add_edge_def Let_def)

lemma dom_interface_attr:
  "dom (interface_attr x cs og uvw) =
     {''interface_type'', ''interface_size'', ''interface_points'', ''interface_origin'',
      ''interface_uvw''}"
  by (auto simp: interface_attr_def split: if_splits)

lemma overwrite_interface:
  "(d ++ interface_attr x cs og uvw) ++ (d ++ interface_attr x' cs' og' uvw')
     = d ++ interface_attr x' cs' og' uvw'"
proof
  fix key
  have "key \<in> dom (interface_attr x cs og uvw) \<longleftrightarrow> key \<in> dom (interface_attr x' cs' og' uvw')"
    by (simp only: dom_interface_attr)
  then show "((d ++ interface_attr x cs og uvw) ++ (d ++ interface_attr x' cs' og' uvw')) key
     = (d ++ interface_attr x' cs' og' uvw') key"
    by (auto simp: map_add_def dom_def split: option.splits)
qed

lemma for_each_rel:
  assumes "P s" and "for_each f xs s = Done s'"
    and step: "\<And>x t t'. x \<in> set xs \<Longrightarrow> P t \<Longrightarrow> f x t = Done t' \<Longrightarrow> R t t'"
    and pres: "\<And>t t'. P t \<Longrightarrow> R t t' \<Longrightarrow> P t'"
    and refl: "\<And>t. R t t"
    and trans: "\<And>a b c. R a b \<Longrightarrow> R b c \<Longrightarrow> R a c"
  shows "R s s'"
  using assms(1,2) step
proof (induction xs arbitrary: s)
  case Nil
  then show ?case using refl by simp
next
  case (Cons x xs)
  from Cons.prems(2) obtain s1 where s1: "f x s = Done s1" and rest: "for_each f xs s1 = Done s'"
    by (cases "f x s") simp_all
  have r1: "R s s1" by (rule Cons.prems(3)[of x s s1]) (simp_all add: Cons.prems(1) s1)
  have P1: "P s1" by (rule pres[OF Cons.prems(1) r1])
  have "R s1 s'"
  proof (rule Cons.IH[OF P1 rest])
    fix y t t'
    assume "y \<in> set xs" and "P t" and "f y t = Done t'"
    then show "R t t'" by (intro Cons.prems(3)[of y t t'] insertI2) (simp_all)
  qed
  with r1 show ?case by (rule trans)
qed

lemma for_each_stable:
  assumes "P s" and "for_each f xs s = Done s'" and "R s' u"
    and step: "\<And>x t t'. x \<in> set xs \<Longrightarrow> P t \<Longrightarrow> f x t = Done t' \<Longrightarrow> R t t'"
    and pres: "\<And>t t'. P t \<Longrightarrow> R t t' \<Longrightarrow> P t'"
    and refl: "\<And>t. R t t"
    and trans: "\<And>a b c. R a b \<Longrightarrow> R b c \<Longrightarrow> R a c"
    and stable: "\<And>x t t' v. x \<in> set xs \<Longrightarrow> P t \<Longrightarrow> f x t = Done t' \<Longrightarrow> R t' v
                   \<Longrightarrow> f x v = Done v"
  shows "for_each f xs u = Done u"
  using assms(1,2) step stable
proof (induction xs arbitrary: s)
  case Nil
  show ?case by simp
next
  case (Cons x xs)
  from Cons.prems(2) obtain s1 where s1: "f x s = Done s1" and rest: "for_each f xs s1 = Done s'"
    by (cases "f x s") simp_all
  have step': "R t t'" if "y \<in> set xs" and "P t" and "f y t = Done t'" for y t t'
    using that by (intro Cons.prems(3)[of y t t'] insertI2) (simp_all)
  have stable': "f y v = Done v"
    if "y \<in> set xs" and "P t" and "f y t = Done t'" and "R t' v" for y t t' v
  proof (rule Cons.prems(4)[of y t t' v])
    show "y \<in> set (x # xs)" using that(1) by simp
  qed (rule that)+
  have r1: "R s s1" by (rule Cons.prems(3)[of x s s1]) (simp_all add: Cons.prems(1) s1)
  have P1: "P s1" by (rule pres[OF Cons.prems(1) r1])
  have "R s1 s'"
  proof (rule for_each_rel[where P = P and R = R and f = f and xs = xs and s = s1 and s' = s'])
    show "P s1" by (rule P1)
    show "for_each f xs s1 = Done s'" by (rule rest)
    show "R t t'" if "y \<in> set xs" and "P t" and "f y t = Done t'" for y t t'
      using that by (rule step')
    show "P t'" if "P t" and "R t t'" for t t' using that by (rule pres)
    show "R t t" for t by (rule refl)
    show "R a c" if "R a b" and "R b c" for a b c using that by (rule trans)
  qed
  then have su: "R s1 u" using assms(3) by (rule trans)
  have x: "f x u = Done u"
  proof (rule Cons.prems(4)[of x s s1 u])
    show "x \<in> set (x # xs)" by simp
  qed (rule Cons.prems(1) s1 su)+
  have "for_each f xs u = Done u"
  proof (rule Cons.IH[OF P1 rest])
    show "R t t'" if "y \<in> set xs" and "P t" and "f y t = Done t'" for y t t'
      using that by (rule step')
    show "f y v = Done v"
      if "y \<in> set xs" and "P t" and "f y t = Done t'" and "R t' v" for y t t' v
      using that by (rule stable')
  qed
  with x show ?case by simp
qed

lemma for_each_raises:
  assumes "x \<in> set xs" and "P s"
    and "\<And>y t. y \<in> set xs \<Longrightarrow> P t \<Longrightarrow> P (final (f y t))"
    and "\<And>t. P t \<Longrightarrow> \<exists>e t'. f x t = Raised e t'"
  shows "\<exists>e t'. for_each f xs s = Raised e t'"
  using assms
proof (induction xs arbitrary: s)
  case Nil
  then show ?case by simp
next
  case (Cons y ys)
  show ?case
  proof (cases "f y s")
    case (Raised e t)
    then show ?thesis by simp
  next
    case (Done t)
    have "P (final (f y s))" by (rule Cons.prems(3)) (simp_all add: Cons.prems(2))
    then have Pt: "P t" using Done by simp
    have "x \<noteq> y" using Cons.prems(4)[OF Cons.prems(2)] Done by auto
    then have "x \<in> set ys" using Cons.prems(1) by simp
    then have "\<exists>e t'. for_each f ys t = Raised e t'"
      using Cons.IH[of t] Pt Cons.prems(3,4) by simp
    then show ?thesis using Done by simp
  qed
qed

section \<open>Edges are only added between unconnected distinct nodes\<close>

lemma interfaces_added_refl: "interfaces_added amin a a"
  by (simp add: interfaces_added_def)

lemma interfaces_added_fields:
  assumes "interfaces_added amin a s"
  shows "vertex s = vertex a" "blocks s = blocks a" "vertices s = vertices a"
    "default_edge_attributes s = default_edge_attributes a"
proof -
  from assms have eq: "s = a\<lparr>edge := edge s\<rparr>" by (simp add: interfaces_added_def)
  have "vertex (a\<lparr>edge := edge s\<rparr>) = vertex a" by simp
  with eq show v: "vertex s = vertex a" by simp
  have "blocks (a\<lparr>edge := edge s\<rparr>) = blocks a" by simp
  with eq show "blocks s = blocks a" by simp
  from v show "vertices s = vertices a" by (simp add: vertices_def)
  have "default_edge_attributes (a\<lparr>edge := edge s\<rparr>) = default_edge_attributes a" by simp
  with eq show "default_edge_attributes s = default_edge_attributes a" by simp
qed

lemma interfaces_added_None:
  assumes "interfaces_added amin a s" and "edge s (k, n) = None"
  shows "edge a (k, n) = None"
  using assms unfolding interfaces_added_def by (metis option.distinct(1))

lemma interfaces_added_add_edge:
  assumes G: "interfaces_added amin a s"
    and kn: "k \<noteq> n" and kv: "k \<in> set (vertices a)" and nv: "n \<in> set (vertices a)"
    and a1: "edge a (k, n) = None" and a2: "edge a (n, k) = None" and s2: "edge s (n, k) = None"
    and x: "amin \<le> x"
  shows "interfaces_added amin a
           (add_edge s k n (interface_attr x (global_coords_numpy og uvw (flatten_z cs)) og uvw))"
proof -
  let ?attr = "interface_attr x (global_coords_numpy og uvw (flatten_z cs)) og uvw"
  let ?d = "default_edge_attributes a"
  have eq: "s = a\<lparr>edge := edge s\<rparr>" using G by (simp add: interfaces_added_def)
  have vs: "vertices s = vertices a" and ds: "default_edge_attributes s = ?d"
    using interfaces_added_fields[OF G] by simp_all
  have old: "edge s (k, n) = None \<or>
      (\<exists>x' cs' og' uvw'. edge s (k, n) =
         Some (?d ++ interface_attr x' (global_coords_numpy og' uvw' (flatten_z cs')) og' uvw'))"
    using G a1 unfolding interfaces_added_def by metis
  have data: "(case edge s (k, n) of None \<Rightarrow> Map.empty | Some d \<Rightarrow> d) ++ (?d ++ ?attr) = ?d ++ ?attr"
    using old by (auto simp del: map_add_assoc simp: overwrite_interface)
  have ae: "add_edge s k n ?attr = s\<lparr>edge := (edge s)((k, n) \<mapsto> ?d ++ ?attr)\<rparr>"
    using add_edge_existing[of k s n ?attr] kv nv vs ds data by simp
  have shape: "s\<lparr>edge := (edge s)((k, n) \<mapsto> ?d ++ ?attr)\<rparr>
      = a\<lparr>edge := (edge s)((k, n) \<mapsto> ?d ++ ?attr)\<rparr>"
    by (subst eq) simp
  define E where "E = (edge s)((k, n) \<mapsto> ?d ++ ?attr)"
  have Ekn: "E (k, n) = Some (?d ++ ?attr)" by (simp add: E_def)
  have Enk: "E (n, k) = None" using kn s2 by (simp add: E_def)
  have Eother: "\<And>p. p \<noteq> (k, n) \<Longrightarrow> E p = edge s p" by (simp add: E_def)
  have edges: "E (k', n') = edge a (k', n') \<or>
        (k' \<noteq> n' \<and> edge a (k', n') = None \<and> edge a (n', k') = None \<and> E (n', k') = None \<and>
         (\<exists>x cs og uvw. amin \<le> x \<and>
            E (k', n') =
              Some (?d ++ interface_attr x (global_coords_numpy og uvw (flatten_z cs)) og uvw)))"
    for k' n'
  proof (cases "(k', n') = (k, n)")
    case True
    then have *: "k' = k" "n' = n" by simp_all
    have "\<exists>x' cs' og' uvw'. amin \<le> x' \<and> E (k, n) =
          Some (?d ++ interface_attr x' (global_coords_numpy og' uvw' (flatten_z cs')) og' uvw')"
      using x Ekn by blast
    then show ?thesis unfolding * using kn a1 a2 Enk by blast
  next
    case ne: False
    show ?thesis
    proof (cases "(n', k') = (k, n)")
      case True
      then have *: "n' = k" "k' = n" by simp_all
      show ?thesis unfolding * using Enk a2 by simp
    next
      case False
      have old: "edge s (k', n') = edge a (k', n') \<or>
          (k' \<noteq> n' \<and> edge a (k', n') = None \<and> edge a (n', k') = None \<and> edge s (n', k') = None \<and>
           (\<exists>x cs og uvw. amin \<le> x \<and> edge s (k', n') =
              Some (?d ++ interface_attr x (global_coords_numpy og uvw (flatten_z cs)) og uvw)))"
        using G unfolding interfaces_added_def by blast
      have "E (k', n') = edge s (k', n')" "E (n', k') = edge s (n', k')"
        using Eother ne False by blast+
      then show ?thesis using old by presburger
    qed
  qed
  have ae': "add_edge s k n ?attr = a\<lparr>edge := E\<rparr>"
    unfolding ae shape E_def ..
  have "edge (a\<lparr>edge := E\<rparr>) = E" by simp
  then show ?thesis
    unfolding ae' interfaces_added_def using edges by simp
qed

lemma add_edge_other:
  assumes "u \<in> set (vertices s)" and "v \<in> set (vertices s)" and "p \<noteq> (u, v)"
  shows "edge (add_edge s u v attr) p = edge s p"
  using assms by (simp add: add_edge_existing)

lemma polygon_step_added:
  assumes G: "interfaces_added amin a s"
    and kn: "k \<noteq> n" and kv: "k \<in> set (vertices a)" and nv: "n \<in> set (vertices a)"
    and a1: "edge a (k, n) = None" and a2: "edge a (n, k) = None" and s2: "edge s (n, k) = None"
  shows "interfaces_added amin a (final (polygon_step eng amin k og uvw p0 n rst1 s))
         \<and> edge (final (polygon_step eng amin k og uvw p0 n rst1 s)) (n, k) = None"
proof -
  have vs: "vertices s = vertices a" using interfaces_added_fields[OF G] by simp
  have add: "interfaces_added amin a
               (add_edge s k n (interface_attr x (global_coords_numpy og uvw (flatten_z cs)) og uvw))
             \<and> edge (add_edge s k n
                       (interface_attr x (global_coords_numpy og uvw (flatten_z cs)) og uvw)) (n, k)
                 = None"
    if "amin \<le> x" for x cs
    using interfaces_added_add_edge[OF G kn kv nv a1 a2 s2 that]
      add_edge_other[of k s n "(n, k)"] kv nv vs kn s2 by simp
  show ?thesis
    unfolding polygon_step_def using G s2 add
    by (simp split: sum.split)
qed

lemma face_step_added:
  assumes G: "interfaces_added amin a s"
    and kn: "k \<noteq> n" and kv: "k \<in> set (vertices a)" and nv: "n \<in> set (vertices a)"
    and a1: "edge a (k, n) = None" and a2: "edge a (n, k) = None" and s2: "edge s (n, k) = None"
  shows "interfaces_added amin a (final (face_step eng tmax amin k og uvw p0 n rst f1 s))
         \<and> edge (final (face_step eng tmax amin k og uvw p0 n rst f1 s)) (n, k) = None"
proof (cases "map_or_raise (getitem rst) (snd f1)")
  case (Inl e)
  then show ?thesis using G s2 by (simp add: face_step_def)
next
  case (Inr rst1)
  show ?thesis
  proof (cases "list_ex (\<lambda>p. case p of (r, s, t) \<Rightarrow> tmax < \<bar>t\<bar>) rst1")
    case True
    then show ?thesis using Inr G s2 by (simp add: face_step_def)
  next
    case False
    then have "face_step eng tmax amin k og uvw p0 n rst f1 s
        = polygon_step eng amin k og uvw p0 n rst1 s"
      using Inr by (simp add: face_step_def)
    then show ?thesis
      using polygon_step_added[OF G kn kv nv a1 a2 s2, of eng og uvw p0 rst1] by simp
  qed
qed

lemma nbr_step_added:
  assumes G: "interfaces_added amin a s"
    and kv: "k \<in> set (vertices a)"
    and iv: "\<And>n. index_key j = Some n \<Longrightarrow> n \<in> set (vertices a)"
  shows "interfaces_added amin a (final (nbr_step eng tmax amin index_key k og uvw p0 j s))"
proof (cases "index_key j")
  case None
  then show ?thesis using G by (simp add: nbr_step_def)
next
  case (Some n)
  note nv = iv[OF Some]
  show ?thesis
  proof (cases "n = k \<or> edge s (k, n) \<noteq> None \<or> edge s (n, k) \<noteq> None")
    case True
    then show ?thesis using G Some by (auto simp: nbr_step_def)
  next
    case False
    then have kn: "k \<noteq> n" and s1: "edge s (k, n) = None" and s2: "edge s (n, k) = None"
      by auto
    have a1: "edge a (k, n) = None" and a2: "edge a (n, k) = None"
      using interfaces_added_None[OF G] s1 s2 by blast+
    have loop: "interfaces_added amin a (final (for_each (face_step eng tmax amin k og uvw p0 n rst) fs s))"
      for rst fs
    proof -
      let ?P = "\<lambda>t. interfaces_added amin a t \<and> edge t (n, k) = None"
      have "?P (final (for_each (face_step eng tmax amin k og uvw p0 n rst) fs s))"
      proof (rule for_each_final_invariant[where P = ?P])
        show "?P s" using G s2 by simp
      next
        fix f1 t
        assume P: "?P t"
        show "?P (final (face_step eng tmax amin k og uvw p0 n rst f1 t))"
          by (rule face_step_added[OF conjunct1[OF P] kn kv nv a1 a2 conjunct2[OF P]])
      qed
      then show ?thesis by simp
    qed
    show ?thesis
      unfolding nbr_step_def using Some kn s1 s2 G loop
      by (simp split: option.split sum.split)
  qed
qed

lemma base_face_step_added:
  assumes G: "interfaces_added amin a s"
    and kv: "k \<in> set (vertices a)"
    and iv: "\<And>j n. index_key j = Some n \<Longrightarrow> n \<in> set (vertices a)"
  shows "interfaces_added amin a (final (base_face_step eng tmax amin index_key k blk nbrs fr s))"
proof -
  have loop: "interfaces_added amin a
      (final (for_each (nbr_step eng tmax amin index_key k og uvw p0) nbrs s))" for og uvw p0
  proof (rule for_each_final_invariant[where P = "interfaces_added amin a"])
    show "interfaces_added amin a s" by (rule G)
  next
    fix j t
    assume "interfaces_added amin a t"
    then show "interfaces_added amin a (final (nbr_step eng tmax amin index_key k og uvw p0 j t))"
      by (rule nbr_step_added[OF _ kv iv])
  qed
  show ?thesis
    unfolding base_face_step_def using G loop
    by (simp split: prod.split sum.split)
qed

lemma block_step_added:
  assumes G: "interfaces_added amin a s"
    and kv: "k \<in> set (vertices a)"
    and iv: "\<And>j n. index_key j = Some n \<Longrightarrow> n \<in> set (vertices a)"
  shows "interfaces_added amin a
           (final (block_step eng tmax amin face_face key_index index_key block_nnbrs k s))"
proof -
  have loop: "interfaces_added amin a
      (final (for_each (base_face_step eng tmax amin index_key k blk nbrs) frs s))" for blk nbrs frs
  proof (rule for_each_final_invariant[where P = "interfaces_added amin a"])
    show "interfaces_added amin a s" by (rule G)
  next
    fix fr t
    assume "interfaces_added amin a t"
    then show "interfaces_added amin a
        (final (base_face_step eng tmax amin index_key k blk nbrs fr t))"
      by (rule base_face_step_added[OF _ kv iv])
  qed
  show ?thesis
    unfolding block_step_def using G loop
    by (simp split: option.split sum.split)
qed

lemma index_key_vertices:
  assumes "dict_of (zip [0..<length keys] keys) j = Some n"
  shows "n \<in> set keys"
  using dict_of_in_set[OF assms] by (auto dest: set_zip_rightD)

lemma identify_interfaces_added:
  "interfaces_added amin a
     (final (identify_interfaces eng a nmax tmax amin lmin face_face face_edge face_vertex))"
proof -
  let ?keys = "vertices a"
  let ?ik = "dict_of (zip [0..<length ?keys] ?keys)"
  have iv: "\<And>j n. ?ik j = Some n \<Longrightarrow> n \<in> set (vertices a)"
    by (rule index_key_vertices)
  have loop: "interfaces_added amin a
      (final (for_each (block_step eng tmax amin face_face key_index ?ik nn) ?keys a))"
    for key_index nn
  proof (rule for_each_final_invariant[where P = "interfaces_added amin a"])
    show "interfaces_added amin a a" by (rule interfaces_added_refl)
  next
    fix k t
    assume kv: "k \<in> set ?keys" and G: "interfaces_added amin a t"
    show "interfaces_added amin a
        (final (block_step eng tmax amin face_face key_index ?ik nn k t))"
      by (rule block_step_added[OF G kv iv])
  qed
  show ?thesis
    unfolding identify_interfaces_def Let_def using loop interfaces_added_refl[of amin a]
    by (simp split: sum.split)
qed

lemma add_edge_entry:
  "edge (add_edge s u v attr) (u, v)
     = Some ((case edge s (u, v) of None \<Rightarrow> Map.empty | Some d \<Rightarrow> d)
               ++ (default_edge_attributes s ++ attr))"
  by (simp add: add_edge_def add_vertex_def Let_def)

lemma interface_attr_fields:
  "(d ++ interface_attr x coords og uvw) ''interface_type'' = Some (PStr ''face_face'')"
  "(d ++ interface_attr x coords og uvw) ''interface_size'' = Some (PFloat x)"
  "(d ++ interface_attr x coords og uvw) ''interface_points''
     = Some (PList (map py_point (butlast coords)))"
  "(d ++ interface_attr x coords og uvw) ''interface_origin'' = Some (py_point og)"
  "(d ++ interface_attr x coords og uvw) ''interface_uvw'' = Some (py_basis uvw)"
  by (simp_all add: interface_attr_def map_add_def)

lemma interfaces_added_new:
  assumes "interfaces_added amin a s" and "edge s (k, n) \<noteq> edge a (k, n)"
  shows "\<exists>x cs og uvw. amin \<le> x \<and>
            edge s (k, n) =
              Some (default_edge_attributes a
                      ++ interface_attr x (global_coords_numpy og uvw (flatten_z cs)) og uvw)"
  using assms unfolding interfaces_added_def by blast

lemma edge_add_edge:
  "edge (add_edge s u v attr)
     = (edge s)((u, v) \<mapsto> (case edge s (u, v) of None \<Rightarrow> Map.empty | Some d \<Rightarrow> d)
                          ++ (default_edge_attributes s ++ attr))"
  by (simp add: add_edge_def add_vertex_def Let_def)

section \<open>A second pass changes nothing\<close>

lemma covers_refl: "covers s s"
  by (simp add: covers_def)

lemma covers_fields:
  assumes "covers s u"
  shows "vertex u = vertex s" "blocks u = blocks s" "vertices u = vertices s"
proof -
  from assms have eq: "u = s\<lparr>edge := edge u\<rparr>" by (simp add: covers_def)
  have "vertex (s\<lparr>edge := edge u\<rparr>) = vertex s" by simp
  with eq show v: "vertex u = vertex s" by simp
  have "blocks (s\<lparr>edge := edge u\<rparr>) = blocks s" by simp
  with eq show "blocks u = blocks s" by simp
  from v show "vertices u = vertices s" by (simp add: vertices_def)
qed

lemma covers_edge:
  assumes "covers s u" and "edge u (k, n) = None"
  shows "edge s (k, n) = None"
proof -
  from assms(1) have "edge s (k, n) \<noteq> None \<longrightarrow> edge u (k, n) \<noteq> None"
    unfolding covers_def by (elim conjE allE)
  with assms(2) show ?thesis by simp
qed

lemma covers_trans:
  assumes "covers a b" and "covers b c"
  shows "covers a c"
proof -
  from assms have ab: "b = a\<lparr>edge := edge b\<rparr>" and bc: "c = b\<lparr>edge := edge c\<rparr>"
    by (simp_all add: covers_def)
  have "b\<lparr>edge := edge c\<rparr> = a\<lparr>edge := edge c\<rparr>" by (subst ab) simp
  with bc have ac: "c = a\<lparr>edge := edge c\<rparr>" by simp
  have imp: "edge a (k, n) \<noteq> None \<longrightarrow> edge c (k, n) \<noteq> None" for k n
  proof (intro impI notI)
    assume a: "edge a (k, n) \<noteq> None" and "edge c (k, n) = None"
    then have "edge b (k, n) = None" by (intro covers_edge[OF assms(2)])
    then have "edge a (k, n) = None" by (rule covers_edge[OF assms(1)])
    with a show False by (rule notE)
  qed
  show ?thesis unfolding covers_def by (intro conjI allI ac imp)
qed

lemma interfaces_added_covers:
  assumes "interfaces_added amin s t"
  shows "covers s t"
proof -
  have imp: "edge s (k, n) \<noteq> None \<longrightarrow> edge t (k, n) \<noteq> None" for k n
  proof
    assume e: "edge s (k, n) \<noteq> None"
    from assms have "edge t (k, n) = edge s (k, n) \<or> edge s (k, n) = None"
      unfolding interfaces_added_def by (elim conjE allE[of _ k] allE[of _ n]) auto
    with e show "edge t (k, n) \<noteq> None" by auto
  qed
  have eq: "t = s\<lparr>edge := edge t\<rparr>"
    using assms unfolding interfaces_added_def by (rule conjunct1)
  show ?thesis unfolding covers_def by (intro conjI allI eq imp)
qed

lemma polygon_step_noop:
  assumes "polygon_step eng amin k og uvw p0 n rst1 s = Done s'" and "edge s' (k, n) = None"
  shows "s' = s \<and> (\<forall>u. polygon_step eng amin k og uvw p0 n rst1 u = Done u)"
  using assms unfolding polygon_step_def
  by (auto simp: edge_add_edge split: sum.splits if_splits)

lemma face_step_noop:
  assumes "face_step eng tmax amin k og uvw p0 n rst f1 s = Done s'" and "edge s' (k, n) = None"
  shows "s' = s \<and> (\<forall>u. face_step eng tmax amin k og uvw p0 n rst f1 u = Done u)"
proof (cases "map_or_raise (getitem rst) (snd f1)")
  case (Inl e)
  then show ?thesis using assms(1) by (simp add: face_step_def)
next
  case (Inr rst1)
  show ?thesis
  proof (cases "list_ex (\<lambda>p. case p of (r, s, t) \<Rightarrow> tmax < \<bar>t\<bar>) rst1")
    case True
    then show ?thesis using Inr assms(1) by (simp add: face_step_def)
  next
    case False
    then have eq: "face_step eng tmax amin k og uvw p0 n rst f1 t
        = polygon_step eng amin k og uvw p0 n rst1 t" for t
      using Inr by (simp add: face_step_def)
    show ?thesis
      using polygon_step_noop[of eng amin k og uvw p0 n rst1 s s'] assms
      unfolding eq by simp
  qed
qed

lemma face_step_keeps:
  assumes "edge s p \<noteq> None"
  shows "edge (final (face_step eng tmax amin k og uvw p0 n rst f1 s)) p \<noteq> None"
  using assms unfolding face_step_def polygon_step_def
  by (auto simp: edge_add_edge split: sum.splits)

lemma face_loop_keeps:
  assumes "edge s p \<noteq> None"
  shows "edge (final (for_each (face_step eng tmax amin k og uvw p0 n rst) fs s)) p \<noteq> None"
  by (rule for_each_final_invariant[where P = "\<lambda>t. edge t p \<noteq> None"])
     (simp_all add: assms face_step_keeps)

lemma face_loop_noop:
  assumes "for_each (face_step eng tmax amin k og uvw p0 n rst) fs s = Done s'"
    and "edge s' (k, n) = None"
  shows "s' = s \<and> (\<forall>u. for_each (face_step eng tmax amin k og uvw p0 n rst) fs u = Done u)"
  using assms
proof (induction fs arbitrary: s)
  case Nil
  then show ?case by simp
next
  case (Cons f1 fs)
  let ?step = "face_step eng tmax amin k og uvw p0 n rst"
  from Cons.prems(1) obtain s1 where s1: "?step f1 s = Done s1"
    and rest: "for_each ?step fs s1 = Done s'"
    by (cases "?step f1 s") simp_all
  have "edge s1 (k, n) = None"
  proof (rule ccontr)
    assume "edge s1 (k, n) \<noteq> None"
    then have "edge (final (for_each ?step fs s1)) (k, n) \<noteq> None"
      by (rule face_loop_keeps)
    with rest Cons.prems(2) show False by simp
  qed
  with s1 have one: "s1 = s \<and> (\<forall>u. ?step f1 u = Done u)"
    by (rule face_step_noop)
  have more: "s' = s1 \<and> (\<forall>u. for_each ?step fs u = Done u)"
    by (rule Cons.IH[OF rest Cons.prems(2)])
  from one more show ?case by simp
qed

lemma nbr_step_stable:
  assumes run: "nbr_step eng tmax amin index_key k og uvw p0 j s = Done s'"
    and ss': "covers s s'" and s'u: "covers s' u"
  shows "nbr_step eng tmax amin index_key k og uvw p0 j u = Done u"
proof (cases "index_key j")
  case None
  then show ?thesis using run by (simp add: nbr_step_def)
next
  case (Some n)
  have bu: "blocks u = blocks s"
    using covers_fields(2)[OF ss'] covers_fields(2)[OF s'u] by simp
  show ?thesis
  proof (cases "n = k \<or> edge u (k, n) \<noteq> None \<or> edge u (n, k) \<noteq> None")
    case True
    then show ?thesis using Some by (auto simp: nbr_step_def)
  next
    case False
    then have nk: "n \<noteq> k" and u1: "edge u (k, n) = None" and u2: "edge u (n, k) = None"
      by auto
    have e1: "edge s' (k, n) = None" by (rule covers_edge[OF s'u u1])
    have e2: "edge s' (n, k) = None" by (rule covers_edge[OF s'u u2])
    have f1: "edge s (k, n) = None" by (rule covers_edge[OF ss' e1])
    have f2: "edge s (n, k) = None" by (rule covers_edge[OF ss' e2])
    from run Some nk f1 f2 obtain nbr rstl where
      nbr: "blocks s n = Some nbr"
      and lc: "local_coords og uvw (map snd (vertex_xyz nbr)) = Inr rstl"
      and loop: "for_each (face_step eng tmax amin k og uvw p0 n
                   (dict_of (zip (map fst (vertex_xyz nbr)) rstl))) (face_loops nbr) s = Done s'"
      by (auto simp: nbr_step_def split: option.splits sum.splits)
    have "for_each (face_step eng tmax amin k og uvw p0 n
                   (dict_of (zip (map fst (vertex_xyz nbr)) rstl))) (face_loops nbr) u = Done u"
      using face_loop_noop[OF loop e1] by simp
    then show ?thesis
      using Some nk u1 u2 nbr lc bu by (simp add: nbr_step_def)
  qed
qed

lemma nbr_step_covers:
  assumes "nbr_step eng tmax amin index_key k og uvw p0 j s = Done s'"
    and kv: "k \<in> set (vertices s)"
    and iv: "\<And>j n. index_key j = Some n \<Longrightarrow> n \<in> set (vertices s)"
  shows "covers s s'"
proof -
  have "interfaces_added amin s (final (nbr_step eng tmax amin index_key k og uvw p0 j s))"
    by (rule nbr_step_added[OF interfaces_added_refl kv iv])
  then show ?thesis using assms(1) by (simp add: interfaces_added_covers)
qed

lemma base_face_step_covers:
  assumes "base_face_step eng tmax amin index_key k blk nbrs fr s = Done s'"
    and kv: "k \<in> set (vertices s)"
    and iv: "\<And>j n. index_key j = Some n \<Longrightarrow> n \<in> set (vertices s)"
  shows "covers s s'"
proof -
  have "interfaces_added amin s
      (final (base_face_step eng tmax amin index_key k blk nbrs fr s))"
    by (rule base_face_step_added[OF interfaces_added_refl kv iv])
  then show ?thesis using assms(1) by (simp add: interfaces_added_covers)
qed

lemma block_step_covers:
  assumes "block_step eng tmax amin face_face key_index index_key block_nnbrs k s = Done s'"
    and kv: "k \<in> set (vertices s)"
    and iv: "\<And>j n. index_key j = Some n \<Longrightarrow> n \<in> set (vertices s)"
  shows "covers s s'"
proof -
  have "interfaces_added amin s
      (final (block_step eng tmax amin face_face key_index index_key block_nnbrs k s))"
    by (rule block_step_added[OF interfaces_added_refl kv iv])
  then show ?thesis using assms(1) by (simp add: interfaces_added_covers)
qed

lemma nbr_loop_stable:
  assumes run: "for_each (nbr_step eng tmax amin index_key k og uvw p0) nbrs s = Done s'"
    and s'u: "covers s' u"
    and kv: "k \<in> set (vertices s)"
    and iv: "\<And>j n. index_key j = Some n \<Longrightarrow> n \<in> set (vertices s)"
  shows "for_each (nbr_step eng tmax amin index_key k og uvw p0) nbrs u = Done u"
proof (rule for_each_stable[where P = "\<lambda>t. vertices t = vertices s" and R = covers
      and s = s and s' = s'])
  show "vertices s = vertices s" by simp
  show "for_each (nbr_step eng tmax amin index_key k og uvw p0) nbrs s = Done s'" by (rule run)
  show "covers s' u" by (rule s'u)
  show "covers t t'"
    if "vertices t = vertices s" and "nbr_step eng tmax amin index_key k og uvw p0 j t = Done t'"
    for j t t'
    using that(2) by (rule nbr_step_covers) (simp_all add: that(1) kv iv)
  show "vertices t' = vertices s" if "vertices t = vertices s" and "covers t t'" for t t'
    using covers_fields(3)[OF that(2)] that(1) by simp
  show "covers t t" for t by (rule covers_refl)
  show "covers a c" if "covers a b" and "covers b c" for a b c
    using that by (rule covers_trans)
  show "nbr_step eng tmax amin index_key k og uvw p0 j v = Done v"
    if "vertices t = vertices s" and "nbr_step eng tmax amin index_key k og uvw p0 j t = Done t'"
      and "covers t' v" for j t t' v
  proof (rule nbr_step_stable[OF that(2) _ that(3)])
    show "covers t t'"
      using that(2) by (rule nbr_step_covers) (simp_all add: that(1) kv iv)
  qed
qed

lemma base_face_step_stable:
  assumes run: "base_face_step eng tmax amin index_key k blk nbrs fr s = Done s'"
    and s'u: "covers s' u"
    and kv: "k \<in> set (vertices s)"
    and iv: "\<And>j n. index_key j = Some n \<Longrightarrow> n \<in> set (vertices s)"
  shows "base_face_step eng tmax amin index_key k blk nbrs fr u = Done u"
proof -
  obtain f0 og uvw where fr: "fr = (f0, og, uvw)" by (cases fr)
  from run obtain xyz0 rst0 p0 where
    fc: "face_coordinates blk f0 = Inr xyz0"
    and lc: "local_coords og uvw xyz0 = Inr rst0"
    and pg: "Polygon eng rst0 = Inr p0"
    and loop: "for_each (nbr_step eng tmax amin index_key k og uvw p0) nbrs s = Done s'"
    unfolding fr by (auto simp: base_face_step_def split: sum.splits)
  have "for_each (nbr_step eng tmax amin index_key k og uvw p0) nbrs u = Done u"
    by (rule nbr_loop_stable[OF loop s'u kv iv])
  then show ?thesis
    unfolding fr using fc lc pg by (simp add: base_face_step_def)
qed

lemma base_face_loop_stable:
  assumes run: "for_each (base_face_step eng tmax amin index_key k blk nbrs) frs s = Done s'"
    and s'u: "covers s' u"
    and kv: "k \<in> set (vertices s)"
    and iv: "\<And>j n. index_key j = Some n \<Longrightarrow> n \<in> set (vertices s)"
  shows "for_each (base_face_step eng tmax amin index_key k blk nbrs) frs u = Done u"
proof (rule for_each_stable[where P = "\<lambda>t. vertices t = vertices s" and R = covers
      and s = s and s' = s'])
  show "vertices s = vertices s" by simp
  show "for_each (base_face_step eng tmax amin index_key k blk nbrs) frs s = Done s'"
    by (rule run)
  show "covers s' u" by (rule s'u)
  show "covers t t'"
    if "vertices t = vertices s"
      and "base_face_step eng tmax amin index_key k blk nbrs fr t = Done t'"
    for fr t t'
    using that(2) by (rule base_face_step_covers) (simp_all add: that(1) kv iv)
  show "vertices t' = vertices s" if "vertices t = vertices s" and "covers t t'" for t t'
    using covers_fields(3)[OF that(2)] that(1) by simp
  show "covers t t" for t by (rule covers_refl)
  show "covers a c" if "covers a b" and "covers b c" for a b c
    using that by (rule covers_trans)
  show "base_face_step eng tmax amin index_key k blk nbrs fr v = Done v"
    if "vertices t = vertices s"
      and "base_face_step eng tmax amin index_key k blk nbrs fr t = Done t'"
      and "covers t' v" for fr t t' v
    using that(2,3) by (rule base_face_step_stable) (simp_all add: that(1) kv iv)
qed

lemma block_step_stable:
  assumes run: "block_step eng tmax amin face_face key_index index_key block_nnbrs k s = Done s'"
    and s'u: "covers s' u"
    and kv: "k \<in> set (vertices s)"
    and iv: "\<And>j n. index_key j = Some n \<Longrightarrow> n \<in> set (vertices s)"
  shows "block_step eng tmax amin face_face key_index index_key block_nnbrs k u = Done u"
proof -
  have ss': "covers s s'" by (rule block_step_covers[OF run kv iv])
  have bu: "blocks u = blocks s"
    using covers_fields(2)[OF ss'] covers_fields(2)[OF s'u] by simp
  from run obtain i blk frs where ki: "key_index k = Some i"
    and bk: "blocks s k = Some blk" and fr: "frames blk = Inr frs"
    by (auto simp: block_step_def split: option.splits sum.splits)
  show ?thesis
  proof (cases face_face)
    case False
    then show ?thesis using ki bk fr bu by (simp add: block_step_def)
  next
    case True
    then have loop: "for_each (base_face_step eng tmax amin index_key k blk
        (snd (block_nnbrs ! i))) frs s = Done s'"
      using run ki bk fr by (simp add: block_step_def)
    have "for_each (base_face_step eng tmax amin index_key k blk
        (snd (block_nnbrs ! i))) frs u = Done u"
      by (rule base_face_loop_stable[OF loop s'u kv iv])
    then show ?thesis using True ki bk fr bu by (simp add: block_step_def)
  qed
qed

lemma block_loop_stable:
  assumes run: "for_each (block_step eng tmax amin face_face key_index index_key block_nnbrs)
                  ks s = Done s'"
    and s'u: "covers s' u"
    and kv: "set ks \<subseteq> set (vertices s)"
    and iv: "\<And>j n. index_key j = Some n \<Longrightarrow> n \<in> set (vertices s)"
  shows "for_each (block_step eng tmax amin face_face key_index index_key block_nnbrs) ks u
           = Done u"
proof (rule for_each_stable[where P = "\<lambda>t. vertices t = vertices s" and R = covers
      and s = s and s' = s'])
  show "vertices s = vertices s" by simp
  show "for_each (block_step eng tmax amin face_face key_index index_key block_nnbrs) ks s
      = Done s'"
    by (rule run)
  show "covers s' u" by (rule s'u)
  show "covers t t'"
    if "k \<in> set ks" and "vertices t = vertices s"
      and "block_step eng tmax amin face_face key_index index_key block_nnbrs k t = Done t'"
    for k t t'
    using that(3) by (rule block_step_covers) (use that(1,2) kv iv in auto)
  show "vertices t' = vertices s" if "vertices t = vertices s" and "covers t t'" for t t'
    using covers_fields(3)[OF that(2)] that(1) by simp
  show "covers t t" for t by (rule covers_refl)
  show "covers a c" if "covers a b" and "covers b c" for a b c
    using that by (rule covers_trans)
  show "block_step eng tmax amin face_face key_index index_key block_nnbrs k v = Done v"
    if "k \<in> set ks" and "vertices t = vertices s"
      and "block_step eng tmax amin face_face key_index index_key block_nnbrs k t = Done t'"
      and "covers t' v" for k t t' v
    using that(3,4) by (rule block_step_stable) (use that(1,2) kv iv in auto)
qed

lemma vertex_coordinates_cong:
  "vertex a = vertex b \<Longrightarrow> vertex_coordinates a = vertex_coordinates b"
  by (rule ext) (simp add: vertex_coordinates_def)

section \<open>Geometry and bookkeeping lemmas\<close>

lemma pair_logic:
  fixes x y x' y' :: "'a option"
  assumes "x' = x \<or> (x = None \<and> y = None \<and> y' = None)"
    and "y' = y \<or> (y = None \<and> x = None \<and> x' = None)"
  shows "x \<noteq> None \<or> y \<noteq> None \<longrightarrow> x' = x \<and> y' = y"
    and "x' \<noteq> None \<and> y' \<noteq> None \<longrightarrow> x' = x \<and> y' = y"
    and "x = None \<or> y = None \<longrightarrow> x' = None \<or> y' = None"
  using assms by auto

lemma list_ex_off_plane:
  "list_ex (\<lambda>p. case p of (r, s, t) \<Rightarrow> tmax < \<bar>t\<bar>) rst1 \<longleftrightarrow> (\<exists>p\<in>set rst1. tmax < \<bar>snd (snd p)\<bar>)"
  by (simp add: list_ex_iff case_prod_beta)

lemma det3_transpose3: "det3 (transpose3 m) = det3 m"
  by (cases m rule: prod_cases3)
     (auto simp: det3_def transpose3_def split: prod.splits, (simp add: algebra_simps)?)

lemma transpose3_transpose3: "transpose3 (transpose3 m) = m"
  by (auto simp: transpose3_def split: prod.splits)

lemma cramer_rule:
  fixes u v w b :: point
  assumes d: "det3 (u, v, w) \<noteq> 0"
  shows "vadd (vadd (vadd (smult (det3 (b, v, w) / det3 (u, v, w)) u)
                           (smult (det3 (u, b, w) / det3 (u, v, w)) v))
                     (smult (det3 (u, v, b) / det3 (u, v, w)) w)) og
         = vadd b og"
proof -
  obtain u1 u2 u3 where u: "u = (u1, u2, u3)" by (cases u)
  obtain v1 v2 v3 where v: "v = (v1, v2, v3)" by (cases v)
  obtain w1 w2 w3 where w: "w = (w1, w2, w3)" by (cases w)
  obtain b1 b2 b3 where b: "b = (b1, b2, b3)" by (cases b)
  obtain o1 o2 o3 where og: "og = (o1, o2, o3)" by (cases og)
  define D where "D = det3 (u, v, w)"
  have D0: "D \<noteq> 0" using d by (simp add: D_def)
  have Dx: "D = u1 * (v2 * w3 - v3 * w2) - u2 * (v1 * w3 - v3 * w1) + u3 * (v1 * w2 - v2 * w1)"
    by (simp add: D_def det3_def u v w)
  have c1: "det3 (b, v, w) * u1 + det3 (u, b, w) * v1 + det3 (u, v, b) * w1 = D * b1"
    unfolding Dx by (simp add: det3_def u v w b algebra_simps)
  have c2: "det3 (b, v, w) * u2 + det3 (u, b, w) * v2 + det3 (u, v, b) * w2 = D * b2"
    unfolding Dx by (simp add: det3_def u v w b algebra_simps)
  have c3: "det3 (b, v, w) * u3 + det3 (u, b, w) * v3 + det3 (u, v, b) * w3 = D * b3"
    unfolding Dx by (simp add: det3_def u v w b algebra_simps)
  have q: "x / D * p + y / D * q + z / D * r = (x * p + y * q + z * r) / D" for x y z p q r
    by (simp add: add_divide_distrib)
  have e1: "det3 (b, v, w) / D * u1 + det3 (u, b, w) / D * v1 + det3 (u, v, b) / D * w1 = b1"
    unfolding q c1 using D0 by simp
  have e2: "det3 (b, v, w) / D * u2 + det3 (u, b, w) / D * v2 + det3 (u, v, b) / D * w2 = b2"
    unfolding q c2 using D0 by simp
  have e3: "det3 (b, v, w) / D * u3 + det3 (u, b, w) / D * v3 + det3 (u, v, b) / D * w3 = b3"
    unfolding q c3 using D0 by simp
  show ?thesis
    unfolding D_def[symmetric]
    using e1 e2 e3 by (simp add: vadd_def smult_def u v w b og)
qed

lemma vadd_vsub: "vadd (vsub p og) og = p"
  by (auto simp: vadd_def vsub_def split: prod.splits)

lemma local_coords_nonsingular:
  assumes "det3 uvw \<noteq> 0"
  shows "local_coords og uvw pts =
           Inr (map (\<lambda>p. case uvw of (u, v, w) \<Rightarrow>
                  (det3 (vsub p og, v, w) / det3 uvw,
                   det3 (u, vsub p og, w) / det3 uvw,
                   det3 (u, v, vsub p og) / det3 uvw)) pts)"
  using assms
  by (cases uvw rule: prod_cases3)
     (simp add: local_coords_def solve_def det3_transpose3 transpose3_transpose3 comp_def)

lemma global_local:
  assumes "det3 uvw \<noteq> 0" and "local_coords og uvw pts = Inr rst"
  shows "global_coords_numpy og uvw rst = pts"
proof -
  obtain u v w where uvw: "uvw = (u, v, w)" by (cases uvw rule: prod_cases3)
  have d: "det3 (u, v, w) \<noteq> 0" using assms(1) uvw by simp
  have rst: "rst = map (\<lambda>p. (det3 (vsub p og, v, w) / det3 (u, v, w),
                   det3 (u, vsub p og, w) / det3 (u, v, w),
                   det3 (u, v, vsub p og) / det3 (u, v, w))) pts"
    using local_coords_nonsingular[OF assms(1), of og pts] assms(2) uvw by simp
  show ?thesis
    unfolding rst global_coords_numpy_def uvw
    by (simp add: comp_def cramer_rule[OF d] vadd_vsub)
qed

lemma flatten_z_coplanar:
  assumes "\<forall>p\<in>set rst. snd (snd p) = 0"
  shows "flatten_z rst = rst"
  unfolding flatten_z_def using assms
  by (induction rst) (auto split: prod.splits)

lemma update_entry_fresh:
  "key \<notin> set (map fst xs) \<Longrightarrow> update_entry key attr xs = xs @ [(key, attr)]"
  by (induction xs) auto

lemma add_vertex_fresh_node:
  assumes "max_int_key a + 1 \<notin> set (vertices a)"
  shows "fst (add_vertex a None attr_dict kwattr) = max_int_key a + 1"
    and "node (snd (add_vertex a None attr_dict kwattr)) (max_int_key a + 1)
           = Some (default_vertex_attributes a
                    ++ ((case attr_dict of None \<Rightarrow> Map.empty | Some d \<Rightarrow> d) ++ kwattr))"
  using assms
  by (simp_all add: add_vertex_def Let_def node_def vertices_def update_entry_fresh dict_of_snoc)

lemma base_face_step_singular:
  assumes "det3 uvw = 0"
  shows "\<exists>e. base_face_step eng tmax amin index_key k blk nbrs (f0, og, uvw) s = Raised e s"
  using assms
  by (simp add: base_face_step_def local_coords_def solve_def det3_transpose3 split: sum.split)

lemma block_step_degenerate:
  assumes "face_face" and "blocks s k = Some blk"
    and "(\<exists>e. frames blk = Inl e)
         \<or> (\<exists>frs f0 og uvw. frames blk = Inr frs \<and> (f0, og, uvw) \<in> set frs \<and> det3 uvw = 0)"
  shows "\<exists>e t. block_step eng tmax amin face_face key_index index_key block_nnbrs k s = Raised e t"
proof (cases "key_index k")
  case None
  then show ?thesis by (simp add: block_step_def)
next
  case (Some i)
  from assms(3) show ?thesis
  proof
    assume "\<exists>e. frames blk = Inl e"
    then show ?thesis using Some assms(2) by (auto simp: block_step_def)
  next
    assume "\<exists>frs f0 og uvw. frames blk = Inr frs \<and> (f0, og, uvw) \<in> set frs \<and> det3 uvw = 0"
    then obtain frs f0 og uvw where fr: "frames blk = Inr frs"
      and mem: "(f0, og, uvw) \<in> set frs" and d: "det3 uvw = 0"
      by blast
    have "\<exists>e t. for_each (base_face_step eng tmax amin index_key k blk (snd (block_nnbrs ! i)))
        frs s = Raised e t"
    proof (rule for_each_raises[where P = "\<lambda>t. True", OF mem])
      fix t :: assembly
      show "\<exists>e t'. base_face_step eng tmax amin index_key k blk (snd (block_nnbrs ! i))
          (f0, og, uvw) t = Raised e t'"
        using base_face_step_singular[OF d] by blast
    qed simp_all
    then show ?thesis using Some assms(1,2) fr by (simp add: block_step_def)
  qed
qed

section \<open>Every new edge stems from a face pair that passes the tests\<close>

lemma interfaces_traced_refl: "interfaces_traced eng tmax amin a a"
  by (simp add: interfaces_traced_def)

lemma add_edge_new_entry:
  assumes G: "interfaces_added amin a s"
    and kv: "k \<in> set (vertices a)" and nv: "n \<in> set (vertices a)"
    and a1: "edge a (k, n) = None"
  shows "add_edge s k n (interface_attr x c og uvw)
           = s\<lparr>edge := (edge s)((k, n) \<mapsto>
                 default_edge_attributes a ++ interface_attr x c og uvw)\<rparr>"
proof -
  let ?attr = "interface_attr x c og uvw"
  let ?d = "default_edge_attributes a"
  have vs: "vertices s = vertices a" and ds: "default_edge_attributes s = ?d"
    using interfaces_added_fields[OF G] by simp_all
  have old: "edge s (k, n) = None \<or>
      (\<exists>x' cs' og' uvw'. edge s (k, n) =
         Some (?d ++ interface_attr x' (global_coords_numpy og' uvw' (flatten_z cs')) og' uvw'))"
    using G a1 unfolding interfaces_added_def by metis
  have data: "(case edge s (k, n) of None \<Rightarrow> Map.empty | Some d \<Rightarrow> d) ++ (?d ++ ?attr)
      = ?d ++ ?attr"
    using old by (auto simp del: map_add_assoc simp: overwrite_interface)
  show ?thesis
    using add_edge_existing[of k s n ?attr] kv nv vs ds data by simp
qed

lemma interfaces_traced_add_edge:
  assumes G: "interfaces_added amin a s" and T: "interfaces_traced eng tmax amin a s"
    and kv: "k \<in> set (vertices a)" and nv: "n \<in> set (vertices a)"
    and a1: "edge a (k, n) = None"
    and bf: "base_face eng a k og uvw p0" and nf: "nbr_face a n og uvw rst1"
    and ps: "passes eng tmax amin p0 rst1 isec cs"
  shows "interfaces_traced eng tmax amin a
           (add_edge s k n
              (interface_attr (area eng isec) (global_coords_numpy og uvw (flatten_z cs)) og uvw))"
proof -
  let ?attr = "interface_attr (area eng isec) (global_coords_numpy og uvw (flatten_z cs)) og uvw"
  let ?d = "default_edge_attributes a"
  define E where "E = (edge s)((k, n) \<mapsto> ?d ++ ?attr)"
  have ae: "add_edge s k n ?attr = s\<lparr>edge := E\<rparr>"
    unfolding E_def by (rule add_edge_new_entry[OF G kv nv a1])
  have Ekn: "E (k, n) = Some (?d ++ ?attr)" by (simp add: E_def)
  have Eother: "\<And>p. p \<noteq> (k, n) \<Longrightarrow> E p = edge s p" by (simp add: E_def)
  have edges: "E (k', n') = edge a (k', n') \<or>
        (\<exists>og uvw p0 rst1 isec cs.
           base_face eng a k' og uvw p0 \<and> nbr_face a n' og uvw rst1
           \<and> passes eng tmax amin p0 rst1 isec cs
           \<and> E (k', n') =
               Some (?d ++ interface_attr (area eng isec)
                            (global_coords_numpy og uvw (flatten_z cs)) og uvw))"
    for k' n'
  proof (cases "(k', n') = (k, n)")
    case True
    then have *: "k' = k" "n' = n" by simp_all
    have "base_face eng a k og uvw p0 \<and> nbr_face a n og uvw rst1
           \<and> passes eng tmax amin p0 rst1 isec cs \<and> E (k, n) = Some (?d ++ ?attr)"
      by (intro conjI bf nf ps Ekn)
    then have "\<exists>og uvw p0 rst1 isec cs.
           base_face eng a k og uvw p0 \<and> nbr_face a n og uvw rst1
           \<and> passes eng tmax amin p0 rst1 isec cs
           \<and> E (k, n) =
               Some (?d ++ interface_attr (area eng isec)
                            (global_coords_numpy og uvw (flatten_z cs)) og uvw)"
      by (intro exI)
    then show ?thesis unfolding * by (rule disjI2)
  next
    case False
    then have "E (k', n') = edge s (k', n')" by (rule Eother)
    moreover have "edge s (k', n') = edge a (k', n') \<or>
        (\<exists>og uvw p0 rst1 isec cs.
           base_face eng a k' og uvw p0 \<and> nbr_face a n' og uvw rst1
           \<and> passes eng tmax amin p0 rst1 isec cs
           \<and> edge s (k', n') =
               Some (?d ++ interface_attr (area eng isec)
                            (global_coords_numpy og uvw (flatten_z cs)) og uvw))"
      using T unfolding interfaces_traced_def by (elim allE)
    ultimately show ?thesis by simp
  qed
  have "edge (s\<lparr>edge := E\<rparr>) = E" by simp
  then show ?thesis
    unfolding ae interfaces_traced_def using edges by simp
qed

lemma polygon_step_traced:
  assumes G: "interfaces_added amin a s" and T: "interfaces_traced eng tmax amin a s"
    and kv: "k \<in> set (vertices a)" and nv: "n \<in> set (vertices a)"
    and a1: "edge a (k, n) = None"
    and bf: "base_face eng a k og uvw p0" and nf: "nbr_face a n og uvw rst1"
    and cp: "\<forall>p\<in>set rst1. \<bar>snd (snd p)\<bar> \<le> tmax"
  shows "interfaces_traced eng tmax amin a (final (polygon_step eng amin k og uvw p0 n rst1 s))"
proof (cases "Polygon eng rst1")
  case (Inl e)
  then show ?thesis using T by (simp add: polygon_step_def)
next
  case p1: (Inr p1)
  show ?thesis
  proof (cases "area eng p1 = 0")
    case True
    then show ?thesis using T p1 by (simp add: polygon_step_def)
  next
    case nz: False
    show ?thesis
    proof (cases "intersects eng p0 p1")
      case (Inl e)
      then show ?thesis using T p1 nz by (simp add: polygon_step_def)
    next
      case ix: (Inr b)
      show ?thesis
      proof (cases b)
        case False
        then show ?thesis using T p1 nz ix by (simp add: polygon_step_def)
      next
        case True
        show ?thesis
        proof (cases "intersection eng p0 p1")
          case (Inl e)
          then show ?thesis using T p1 nz ix True by (simp add: polygon_step_def)
        next
          case isx: (Inr isec)
          show ?thesis
          proof (cases "amin \<le> area eng isec")
            case False
            then show ?thesis using T p1 nz ix True isx by (simp add: polygon_step_def)
          next
            case ge: True
            show ?thesis
            proof (cases "exterior_coords eng isec")
              case (Inl e)
              then show ?thesis using T p1 nz ix True isx ge by (simp add: polygon_step_def)
            next
              case ex: (Inr cs)
              have "\<exists>p1. Polygon eng rst1 = Inr p1 \<and> area eng p1 \<noteq> 0
                  \<and> intersects eng p0 p1 = Inr True \<and> intersection eng p0 p1 = Inr isec"
                using p1 nz ix True isx by (intro exI[of _ p1]) simp
              then have ps: "passes eng tmax amin p0 rst1 isec cs"
                unfolding passes_def using cp ge ex by (intro conjI)
              have step: "polygon_step eng amin k og uvw p0 n rst1 s
                  = Done (add_edge s k n (interface_attr (area eng isec)
                            (global_coords_numpy og uvw (flatten_z cs)) og uvw))"
                using p1 nz ix True isx ge ex by (simp add: polygon_step_def)
              show ?thesis
                unfolding step final.simps
                by (rule interfaces_traced_add_edge[OF G T kv nv a1 bf nf ps])
            qed
          qed
        qed
      qed
    qed
  qed
qed

lemma face_step_traced:
  assumes G: "interfaces_added amin a s" and T: "interfaces_traced eng tmax amin a s"
    and kv: "k \<in> set (vertices a)" and nv: "n \<in> set (vertices a)"
    and a1: "edge a (k, n) = None"
    and bf: "base_face eng a k og uvw p0"
    and nb: "blocks a n = Some nbr"
    and lc: "local_coords og uvw (map snd (vertex_xyz nbr)) = Inr rstl"
    and f1: "f1 \<in> set (face_loops nbr)"
  shows "interfaces_traced eng tmax amin a
           (final (face_step eng tmax amin k og uvw p0 n
                     (dict_of (zip (map fst (vertex_xyz nbr)) rstl)) f1 s))"
proof (cases "map_or_raise (getitem (dict_of (zip (map fst (vertex_xyz nbr)) rstl))) (snd f1)")
  case (Inl e)
  then show ?thesis using T by (simp add: face_step_def)
next
  case (Inr rst1)
  show ?thesis
  proof (cases "list_ex (\<lambda>p. case p of (r, s, t) \<Rightarrow> tmax < \<bar>t\<bar>) rst1")
    case True
    then show ?thesis using Inr T by (simp add: face_step_def)
  next
    case False
    then have cp: "\<forall>p\<in>set rst1. \<bar>snd (snd p)\<bar> \<le> tmax"
      by (simp add: list_ex_off_plane not_less)
    have nf: "nbr_face a n og uvw rst1"
      unfolding nbr_face_def using nb lc f1 Inr by (intro exI conjI)
    have "face_step eng tmax amin k og uvw p0 n
            (dict_of (zip (map fst (vertex_xyz nbr)) rstl)) f1 s
        = polygon_step eng amin k og uvw p0 n rst1 s"
      using Inr False by (simp add: face_step_def)
    then show ?thesis
      using polygon_step_traced[OF G T kv nv a1 bf nf cp] by simp
  qed
qed

lemma nbr_step_traced:
  assumes G: "interfaces_added amin a s" and T: "interfaces_traced eng tmax amin a s"
    and kv: "k \<in> set (vertices a)"
    and iv: "\<And>n. index_key j = Some n \<Longrightarrow> n \<in> set (vertices a)"
    and bf: "base_face eng a k og uvw p0"
  shows "interfaces_traced eng tmax amin a
           (final (nbr_step eng tmax amin index_key k og uvw p0 j s))"
proof (cases "index_key j")
  case None
  then show ?thesis using T by (simp add: nbr_step_def)
next
  case (Some n)
  note nv = iv[OF Some]
  show ?thesis
  proof (cases "n = k \<or> edge s (k, n) \<noteq> None \<or> edge s (n, k) \<noteq> None")
    case True
    then show ?thesis using T Some by (auto simp: nbr_step_def)
  next
    case False
    then have kn: "k \<noteq> n" and s1: "edge s (k, n) = None" and s2: "edge s (n, k) = None"
      by auto
    have a1: "edge a (k, n) = None" and a2: "edge a (n, k) = None"
      using interfaces_added_None[OF G] s1 s2 by blast+
    have bs: "blocks s = blocks a" using interfaces_added_fields[OF G] by simp
    show ?thesis
    proof (cases "blocks a n")
      case None
      then show ?thesis using T Some kn s1 s2 bs by (simp add: nbr_step_def)
    next
      case nb: (Some nbr)
      show ?thesis
      proof (cases "local_coords og uvw (map snd (vertex_xyz nbr))")
        case (Inl e)
        then show ?thesis using T Some kn s1 s2 bs nb by (simp add: nbr_step_def)
      next
        case lc: (Inr rstl)
        let ?rst = "dict_of (zip (map fst (vertex_xyz nbr)) rstl)"
        let ?P = "\<lambda>t. (interfaces_added amin a t \<and> edge t (n, k) = None)
                      \<and> interfaces_traced eng tmax amin a t"
        have "?P (final (for_each (face_step eng tmax amin k og uvw p0 n ?rst)
                           (face_loops nbr) s))"
        proof (rule for_each_final_invariant[where P = ?P])
          show "?P s" using G T s2 by simp
        next
          fix f1 t
          assume f1: "f1 \<in> set (face_loops nbr)" and P: "?P t"
          note Gt = conjunct1[OF conjunct1[OF P]]
          note t2 = conjunct2[OF conjunct1[OF P]]
          note Tt = conjunct2[OF P]
          show "?P (final (face_step eng tmax amin k og uvw p0 n ?rst f1 t))"
          proof (rule conjI)
            show "interfaces_added amin a (final (face_step eng tmax amin k og uvw p0 n ?rst f1 t))
                \<and> edge (final (face_step eng tmax amin k og uvw p0 n ?rst f1 t)) (n, k) = None"
              by (rule face_step_added[OF Gt kn kv nv a1 a2 t2])
            show "interfaces_traced eng tmax amin a
                (final (face_step eng tmax amin k og uvw p0 n ?rst f1 t))"
              by (rule face_step_traced[OF Gt Tt kv nv a1 bf nb lc f1])
          qed
        qed
        then have "interfaces_traced eng tmax amin a
            (final (for_each (face_step eng tmax amin k og uvw p0 n ?rst) (face_loops nbr) s))"
          by (rule conjunct2)
        moreover have "nbr_step eng tmax amin index_key k og uvw p0 j s
            = for_each (face_step eng tmax amin k og uvw p0 n ?rst) (face_loops nbr) s"
          using Some kn s1 s2 bs nb lc by (simp add: nbr_step_def)
        ultimately show ?thesis by simp
      qed
    qed
  qed
qed

lemma nbr_loop_traced:
  assumes G: "interfaces_added amin a s" and T: "interfaces_traced eng tmax amin a s"
    and kv: "k \<in> set (vertices a)"
    and iv: "\<And>j n. index_key j = Some n \<Longrightarrow> n \<in> set (vertices a)"
    and bf: "base_face eng a k og uvw p0"
  shows "interfaces_traced eng tmax amin a
           (final (for_each (nbr_step eng tmax amin index_key k og uvw p0) nbrs s))"
proof -
  let ?P = "\<lambda>t. interfaces_added amin a t \<and> interfaces_traced eng tmax amin a t"
  have "?P (final (for_each (nbr_step eng tmax amin index_key k og uvw p0) nbrs s))"
  proof (rule for_each_final_invariant[where P = ?P])
    show "?P s" using G T by simp
  next
    fix j t
    assume P: "?P t"
    show "?P (final (nbr_step eng tmax amin index_key k og uvw p0 j t))"
    proof (rule conjI)
      show "interfaces_added amin a (final (nbr_step eng tmax amin index_key k og uvw p0 j t))"
        by (rule nbr_step_added[OF conjunct1[OF P] kv iv])
      show "interfaces_traced eng tmax amin a
          (final (nbr_step eng tmax amin index_key k og uvw p0 j t))"
        by (rule nbr_step_traced[OF conjunct1[OF P] conjunct2[OF P] kv iv bf])
    qed
  qed
  then show ?thesis by (rule conjunct2)
qed

lemma base_face_step_traced:
  assumes G: "interfaces_added amin a s" and T: "interfaces_traced eng tmax amin a s"
    and kv: "k \<in> set (vertices a)"
    and iv: "\<And>j n. index_key j = Some n \<Longrightarrow> n \<in> set (vertices a)"
    and bk: "blocks a k = Some blk" and fs: "frames blk = Inr frs" and fr: "fr \<in> set frs"
  shows "interfaces_traced eng tmax amin a
           (final (base_face_step eng tmax amin index_key k blk nbrs fr s))"
proof -
  obtain f0 og uvw where fr_eq: "fr = (f0, og, uvw)" by (cases fr)
  show ?thesis
  proof (cases "face_coordinates blk f0")
    case (Inl e)
    then show ?thesis using T fr_eq by (simp add: base_face_step_def)
  next
    case fc: (Inr xyz0)
    show ?thesis
    proof (cases "local_coords og uvw xyz0")
      case (Inl e)
      then show ?thesis using T fr_eq fc by (simp add: base_face_step_def)
    next
      case lc: (Inr rst0)
      show ?thesis
      proof (cases "Polygon eng rst0")
        case (Inl e)
        then show ?thesis using T fr_eq fc lc by (simp add: base_face_step_def)
      next
        case pg: (Inr p0)
        have mem: "(f0, og, uvw) \<in> set frs" using fr fr_eq by simp
        have bf: "base_face eng a k og uvw p0"
          unfolding base_face_def using bk fs mem fc lc pg by (intro exI conjI)
        have "base_face_step eng tmax amin index_key k blk nbrs fr s
            = for_each (nbr_step eng tmax amin index_key k og uvw p0) nbrs s"
          using fr_eq fc lc pg by (simp add: base_face_step_def)
        then show ?thesis
          using nbr_loop_traced[OF G T kv iv bf, where nbrs = nbrs] by simp
      qed
    qed
  qed
qed

lemma block_step_traced:
  assumes G: "interfaces_added amin a s" and T: "interfaces_traced eng tmax amin a s"
    and kv: "k \<in> set (vertices a)"
    and iv: "\<And>j n. index_key j = Some n \<Longrightarrow> n \<in> set (vertices a)"
  shows "interfaces_traced eng tmax amin a
           (final (block_step eng tmax amin face_face key_index index_key block_nnbrs k s))"
proof (cases "key_index k")
  case None
  then show ?thesis using T by (simp add: block_step_def)
next
  case (Some i)
  have bs: "blocks s = blocks a" using interfaces_added_fields[OF G] by simp
  show ?thesis
  proof (cases "blocks a k")
    case None
    then show ?thesis using T Some bs by (simp add: block_step_def)
  next
    case bk: (Some blk)
    show ?thesis
    proof (cases "frames blk")
      case (Inl e)
      then show ?thesis using T Some bs bk by (simp add: block_step_def)
    next
      case fs: (Inr frs)
      show ?thesis
      proof (cases face_face)
        case False
        then show ?thesis using T Some bs bk fs by (simp add: block_step_def)
      next
        case True
        let ?nbrs = "snd (block_nnbrs ! i)"
        let ?P = "\<lambda>t. interfaces_added amin a t \<and> interfaces_traced eng tmax amin a t"
        have "?P (final (for_each (base_face_step eng tmax amin index_key k blk ?nbrs) frs s))"
        proof (rule for_each_final_invariant[where P = ?P])
          show "?P s" using G T by simp
        next
          fix fr t
          assume fr: "fr \<in> set frs" and P: "?P t"
          show "?P (final (base_face_step eng tmax amin index_key k blk ?nbrs fr t))"
          proof (rule conjI)
            show "interfaces_added amin a
                (final (base_face_step eng tmax amin index_key k blk ?nbrs fr t))"
              by (rule base_face_step_added[OF conjunct1[OF P] kv iv])
            show "interfaces_traced eng tmax amin a
                (final (base_face_step eng tmax amin index_key k blk ?nbrs fr t))"
              by (rule base_face_step_traced[OF conjunct1[OF P] conjunct2[OF P] kv iv bk fs fr])
          qed
        qed
        then have "interfaces_traced eng tmax amin a
            (final (for_each (base_face_step eng tmax amin index_key k blk ?nbrs) frs s))"
          by (rule conjunct2)
        moreover have "block_step eng tmax amin face_face key_index index_key block_nnbrs k s
            = for_each (base_face_step eng tmax amin index_key k blk ?nbrs) frs s"
          using Some bs bk fs True by (simp add: block_step_def)
        ultimately show ?thesis by simp
      qed
    qed
  qed
qed

lemma identify_interfaces_traced:
  "interfaces_traced eng tmax amin a
     (final (identify_interfaces eng a nmax tmax amin lmin face_face face_edge face_vertex))"
proof -
  let ?keys = "vertices a"
  let ?ik = "dict_of (zip [0..<length ?keys] ?keys)"
  have iv: "\<And>j n. ?ik j = Some n \<Longrightarrow> n \<in> set (vertices a)"
    by (rule index_key_vertices)
  have loop: "interfaces_traced eng tmax amin a
      (final (for_each (block_step eng tmax amin face_face key_index ?ik nn) ?keys a))"
    for key_index nn
  proof -
    let ?P = "\<lambda>t. interfaces_added amin a t \<and> interfaces_traced eng tmax amin a t"
    have "?P (final (for_each (block_step eng tmax amin face_face key_index ?ik nn) ?keys a))"
    proof (rule for_each_final_invariant[where P = ?P])
      show "?P a" using interfaces_added_refl[of amin a] interfaces_traced_refl[of eng tmax amin a]
        by (rule conjI)
    next
      fix k t
      assume kv: "k \<in> set ?keys" and P: "?P t"
      show "?P (final (block_step eng tmax amin face_face key_index ?ik nn k t))"
      proof (rule conjI)
        show "interfaces_added amin a
            (final (block_step eng tmax amin face_face key_index ?ik nn k t))"
          by (rule block_step_added[OF conjunct1[OF P] kv iv])
        show "interfaces_traced eng tmax amin a
            (final (block_step eng tmax amin face_face key_index ?ik nn k t))"
          by (rule block_step_traced[OF conjunct1[OF P] conjunct2[OF P] kv iv])
      qed
    qed
    then show ?thesis by (rule conjunct2)
  qed
  show ?thesis
    unfolding identify_interfaces_def Let_def
    using loop interfaces_traced_refl[of eng tmax amin a]
    by (simp split: sum.split)
qed

section \<open>A face pair that passes the tests connects its blocks\<close>

lemma for_each_visits:
  assumes "P s" and "for_each f xs s = Done s'" and "x \<in> set xs"
    and step: "\<And>y t t'. y \<in> set xs \<Longrightarrow> P t \<Longrightarrow> f y t = Done t' \<Longrightarrow> R t t'"
    and pres: "\<And>t t'. P t \<Longrightarrow> R t t' \<Longrightarrow> P t'"
    and refl: "\<And>t. R t t"
    and trans: "\<And>a b c. R a b \<Longrightarrow> R b c \<Longrightarrow> R a c"
  shows "\<exists>t t'. P t \<and> f x t = Done t' \<and> R t' s'"
  using assms(1,2,3) step
proof (induction xs arbitrary: s)
  case Nil
  from Nil.prems(3) show ?case by simp
next
  case (Cons y ys)
  from Cons.prems(2) obtain s1 where s1: "f y s = Done s1" and rest: "for_each f ys s1 = Done s'"
    by (cases "f y s") simp_all
  have step': "R t t'" if "z \<in> set ys" and "P t" and "f z t = Done t'" for z t t'
    using that by (intro Cons.prems(4)[of z t t'] insertI2) (simp_all)
  have r1: "R s s1" by (rule Cons.prems(4)[of y s s1]) (simp_all add: Cons.prems(1) s1)
  have P1: "P s1" by (rule pres[OF Cons.prems(1) r1])
  have r2: "R s1 s'"
  proof (rule for_each_rel[where P = P and R = R and f = f and xs = ys and s = s1 and s' = s'])
    show "P s1" by (rule P1)
    show "for_each f ys s1 = Done s'" by (rule rest)
    show "R t t'" if "z \<in> set ys" and "P t" and "f z t = Done t'" for z t t'
      using that by (rule step')
    show "P t'" if "P t" and "R t t'" for t t' using that by (rule pres)
    show "R t t" for t by (rule refl)
    show "R a c" if "R a b" and "R b c" for a b c using that by (rule trans)
  qed
  show ?case
  proof (cases "x = y")
    case True
    have "P s \<and> f x s = Done s1 \<and> R s1 s'"
      using Cons.prems(1) s1 r2 True by simp
    then show ?thesis by (intro exI)
  next
    case False
    then have mem: "x \<in> set ys" using Cons.prems(3) by simp
    show ?thesis
    proof (rule Cons.IH[OF P1 rest mem])
      show "R t t'" if "z \<in> set ys" and "P t" and "f z t = Done t'" for z t t'
        using that by (rule step')
    qed
  qed
qed

lemma map_or_raise_length:
  "map_or_raise f xs = Inr ys \<Longrightarrow> length ys = length xs"
  by (induction xs arbitrary: ys) (auto split: sum.splits)

lemma key_index_vertices:
  assumes "dict_of (zip keys [0..<length keys]) k = Some i"
  shows "k \<in> set keys"
  using dict_of_in_set[OF assms] by (auto dest: set_zip_leftD)

lemma polygon_step_accepts:
  assumes "passes eng tmax amin p0 rst1 isec cs"
  shows "polygon_step eng amin k og uvw p0 n rst1 s
           = Done (add_edge s k n (interface_attr (area eng isec)
                     (global_coords_numpy og uvw (flatten_z cs)) og uvw))"
proof -
  from assms obtain p1 where "Polygon eng rst1 = Inr p1" and "area eng p1 \<noteq> 0"
    and "intersects eng p0 p1 = Inr True" and "intersection eng p0 p1 = Inr isec"
    and "amin \<le> area eng isec" and "exterior_coords eng isec = Inr cs"
    unfolding passes_def by (elim conjE exE)
  then show ?thesis by (simp add: polygon_step_def)
qed

lemma face_step_accepts:
  assumes m: "map_or_raise (getitem rst) (snd f1) = Inr rst1"
    and ps: "passes eng tmax amin p0 rst1 isec cs"
  shows "face_step eng tmax amin k og uvw p0 n rst f1 s
           = Done (add_edge s k n (interface_attr (area eng isec)
                     (global_coords_numpy og uvw (flatten_z cs)) og uvw))"
proof -
  from ps have "\<forall>p\<in>set rst1. \<bar>snd (snd p)\<bar> \<le> tmax"
    unfolding passes_def by (rule conjunct1)
  then have "\<not> list_ex (\<lambda>p. case p of (r, s, t) \<Rightarrow> tmax < \<bar>t\<bar>) rst1"
    by (simp add: list_ex_off_plane not_less)
  then show ?thesis
    using m polygon_step_accepts[OF ps] by (simp add: face_step_def)
qed

lemma face_loop_connects:
  assumes "for_each (face_step eng tmax amin k og uvw p0 n rst) fs s = Done s'"
    and "f1 \<in> set fs"
    and m: "map_or_raise (getitem rst) (snd f1) = Inr rst1"
    and ps: "passes eng tmax amin p0 rst1 isec cs"
  shows "edge s' (k, n) \<noteq> None"
  using assms(1,2)
proof (induction fs arbitrary: s)
  case Nil
  from Nil.prems(2) show ?case by simp
next
  case (Cons f fs)
  let ?step = "face_step eng tmax amin k og uvw p0 n rst"
  from Cons.prems(1) obtain s1 where s1: "?step f s = Done s1"
    and rest: "for_each ?step fs s1 = Done s'"
    by (cases "?step f s") simp_all
  show ?case
  proof (cases "f1 = f")
    case True
    have "s1 = add_edge s k n (interface_attr (area eng isec)
                     (global_coords_numpy og uvw (flatten_z cs)) og uvw)"
      using s1 face_step_accepts[OF m ps, of k og uvw n s] True by simp
    then have "edge s1 (k, n) \<noteq> None" by (simp add: add_edge_entry)
    then have "edge (final (for_each ?step fs s1)) (k, n) \<noteq> None"
      by (rule face_loop_keeps)
    then show ?thesis using rest by simp
  next
    case False
    then have "f1 \<in> set fs" using Cons.prems(2) by simp
    with rest show ?thesis by (rule Cons.IH)
  qed
qed

lemma nbr_step_connects:
  assumes run: "nbr_step eng tmax amin index_key k og uvw p0 j s = Done s'"
    and ik: "index_key j = Some n" and nk: "n \<noteq> k"
    and bs: "blocks s = blocks a"
    and nf: "nbr_face a n og uvw rst1"
    and ps: "passes eng tmax amin p0 rst1 isec cs"
  shows "edge s' (k, n) \<noteq> None \<or> edge s' (n, k) \<noteq> None"
proof (cases "edge s (k, n) \<noteq> None \<or> edge s (n, k) \<noteq> None")
  case True
  then have "nbr_step eng tmax amin index_key k og uvw p0 j s = Done s"
    using ik by (auto simp: nbr_step_def)
  with run have "s' = s" by simp
  with True show ?thesis by simp
next
  case False
  then have s1: "edge s (k, n) = None" and s2: "edge s (n, k) = None" by auto
  from nf obtain nbr rstl f1 where nb: "blocks a n = Some nbr"
    and lc: "local_coords og uvw (map snd (vertex_xyz nbr)) = Inr rstl"
    and f1: "f1 \<in> set (face_loops nbr)"
    and m: "map_or_raise (getitem (dict_of (zip (map fst (vertex_xyz nbr)) rstl))) (snd f1)
              = Inr rst1"
    unfolding nbr_face_def by (elim exE conjE)
  have "nbr_step eng tmax amin index_key k og uvw p0 j s
      = for_each (face_step eng tmax amin k og uvw p0 n
                    (dict_of (zip (map fst (vertex_xyz nbr)) rstl))) (face_loops nbr) s"
    using ik nk s1 s2 bs nb lc by (simp add: nbr_step_def)
  with run have loop: "for_each (face_step eng tmax amin k og uvw p0 n
                    (dict_of (zip (map fst (vertex_xyz nbr)) rstl))) (face_loops nbr) s = Done s'"
    by simp
  have "edge s' (k, n) \<noteq> None" by (rule face_loop_connects[OF loop f1 m ps])
  then show ?thesis by (rule disjI1)
qed

lemma covers_connected:
  assumes "covers t s'" and "edge t (k, n) \<noteq> None \<or> edge t (n, k) \<noteq> None"
  shows "edge s' (k, n) \<noteq> None \<or> edge s' (n, k) \<noteq> None"
  using assms(2) covers_edge[OF assms(1), of k n] covers_edge[OF assms(1), of n k] by auto

lemma nbr_loop_connects:
  assumes run: "for_each (nbr_step eng tmax amin index_key k og uvw p0) nbrs s = Done s'"
    and j: "j \<in> set nbrs" and ik: "index_key j = Some n" and nk: "n \<noteq> k"
    and cs: "covers a s"
    and kv: "k \<in> set (vertices a)"
    and iv: "\<And>j n. index_key j = Some n \<Longrightarrow> n \<in> set (vertices a)"
    and nf: "nbr_face a n og uvw rst1"
    and ps: "passes eng tmax amin p0 rst1 isec cs"
  shows "edge s' (k, n) \<noteq> None \<or> edge s' (n, k) \<noteq> None"
proof -
  have "\<exists>t t'. covers a t \<and> nbr_step eng tmax amin index_key k og uvw p0 j t = Done t'
            \<and> covers t' s'"
  proof (rule for_each_visits[where P = "covers a" and R = covers, OF cs run j])
    fix y t t'
    assume P: "covers a t" and st: "nbr_step eng tmax amin index_key k og uvw p0 y t = Done t'"
    have vt: "vertices t = vertices a" by (rule covers_fields(3)[OF P])
    show "covers t t'"
    proof (rule nbr_step_covers[OF st])
      show "k \<in> set (vertices t)" using kv vt by simp
      show "\<And>j n. index_key j = Some n \<Longrightarrow> n \<in> set (vertices t)" using iv vt by simp
    qed
  next
    show "covers a t'" if "covers a t" and "covers t t'" for t t'
      using that by (rule covers_trans)
    show "covers t t" for t by (rule covers_refl)
    show "covers x z" if "covers x y" and "covers y z" for x y z
      using that by (rule covers_trans)
  qed
  then obtain t t' where P: "covers a t"
    and st: "nbr_step eng tmax amin index_key k og uvw p0 j t = Done t'"
    and c: "covers t' s'"
    by (elim exE conjE)
  have bt: "blocks t = blocks a" by (rule covers_fields(2)[OF P])
  have "edge t' (k, n) \<noteq> None \<or> edge t' (n, k) \<noteq> None"
    by (rule nbr_step_connects[OF st ik nk bt nf ps])
  with c show ?thesis by (rule covers_connected)
qed

lemma block_step_connects:
  assumes run: "block_step eng tmax amin True key_index index_key nn k s = Done s'"
    and ki: "key_index k = Some i"
    and j: "j \<in> set (snd (nn ! i))" and ik: "index_key j = Some n" and nk: "n \<noteq> k"
    and cs: "covers a s"
    and kv: "k \<in> set (vertices a)"
    and iv: "\<And>j n. index_key j = Some n \<Longrightarrow> n \<in> set (vertices a)"
    and bf: "base_face eng a k og uvw p0"
    and nf: "nbr_face a n og uvw rst1"
    and ps: "passes eng tmax amin p0 rst1 isec cs"
  shows "edge s' (k, n) \<noteq> None \<or> edge s' (n, k) \<noteq> None"
proof -
  from bf obtain blk frs f0 xyz0 rst0 where bk: "blocks a k = Some blk"
    and fs: "frames blk = Inr frs" and mem: "(f0, og, uvw) \<in> set frs"
    and fc: "face_coordinates blk f0 = Inr xyz0"
    and lc: "local_coords og uvw xyz0 = Inr rst0"
    and pg: "Polygon eng rst0 = Inr p0"
    unfolding base_face_def by (elim exE conjE)
  let ?nbrs = "snd (nn ! i)"
  have bs: "blocks s = blocks a" by (rule covers_fields(2)[OF cs])
  have "block_step eng tmax amin True key_index index_key nn k s
      = for_each (base_face_step eng tmax amin index_key k blk ?nbrs) frs s"
    using ki bs bk fs by (simp add: block_step_def)
  with run have loop: "for_each (base_face_step eng tmax amin index_key k blk ?nbrs) frs s
      = Done s'"
    by simp
  have "\<exists>t t'. covers a t
            \<and> base_face_step eng tmax amin index_key k blk ?nbrs (f0, og, uvw) t = Done t'
            \<and> covers t' s'"
  proof (rule for_each_visits[where P = "covers a" and R = covers, OF cs loop mem])
    fix y t t'
    assume P: "covers a t"
      and st: "base_face_step eng tmax amin index_key k blk ?nbrs y t = Done t'"
    have vt: "vertices t = vertices a" by (rule covers_fields(3)[OF P])
    show "covers t t'"
    proof (rule base_face_step_covers[OF st])
      show "k \<in> set (vertices t)" using kv vt by simp
      show "\<And>j n. index_key j = Some n \<Longrightarrow> n \<in> set (vertices t)" using iv vt by simp
    qed
  next
    show "covers a t'" if "covers a t" and "covers t t'" for t t'
      using that by (rule covers_trans)
    show "covers t t" for t by (rule covers_refl)
    show "covers x z" if "covers x y" and "covers y z" for x y z
      using that by (rule covers_trans)
  qed
  then obtain t t' where P: "covers a t"
    and st: "base_face_step eng tmax amin index_key k blk ?nbrs (f0, og, uvw) t = Done t'"
    and c: "covers t' s'"
    by (elim exE conjE)
  have "base_face_step eng tmax amin index_key k blk ?nbrs (f0, og, uvw) t
      = for_each (nbr_step eng tmax amin index_key k og uvw p0) ?nbrs t"
    using fc lc pg by (simp add: base_face_step_def)
  with st have nl: "for_each (nbr_step eng tmax amin index_key k og uvw p0) ?nbrs t = Done t'"
    by simp
  have "edge t' (k, n) \<noteq> None \<or> edge t' (n, k) \<noteq> None"
    by (rule nbr_loop_connects[OF nl j ik nk P kv iv nf ps])
  with c show ?thesis by (rule covers_connected)
qed

lemma pass_complete:
  assumes run: "identify_interfaces eng a nmax tmax amin lmin True face_edge face_vertex = Done s'"
    and cand: "candidate eng a nmax k n" and nk: "n \<noteq> k"
    and bf: "base_face eng a k og uvw p0"
    and nf: "nbr_face a n og uvw rst1"
    and ps: "passes eng tmax amin p0 rst1 isec cs"
  shows "edge s' (k, n) \<noteq> None \<or> edge s' (n, k) \<noteq> None"
proof -
  let ?keys = "vertices a"
  let ?ki = "dict_of (zip ?keys [0..<length ?keys])"
  let ?ik = "dict_of (zip [0..<length ?keys] ?keys)"
  from cand obtain cloud nn i j where
    cl: "map_or_raise (vertex_coordinates a) ?keys = Inr cloud"
    and fn: "find_nearest_neighbours eng cloud (min nmax (int (length ?keys))) = Inr nn"
    and ki: "?ki k = Some i" and j: "j \<in> set (snd (nn ! i))" and ik: "?ik j = Some n"
    unfolding candidate_def by (elim exE conjE)
  have iv: "\<And>j n. ?ik j = Some n \<Longrightarrow> n \<in> set (vertices a)"
    by (rule index_key_vertices)
  have kv: "k \<in> set ?keys" by (rule key_index_vertices[OF ki])
  obtain blks where bl: "map_or_raise (getitem (blocks a)) ?keys = Inr blks"
    using run by (cases "map_or_raise (getitem (blocks a)) ?keys")
      (simp_all add: identify_interfaces_def Let_def)
  have len: "length blks = length ?keys" by (rule map_or_raise_length[OF bl])
  have "identify_interfaces eng a nmax tmax amin lmin True face_edge face_vertex
      = for_each (block_step eng tmax amin True ?ki ?ik nn) ?keys a"
    using bl cl fn len by (simp add: identify_interfaces_def Let_def)
  with run have loop: "for_each (block_step eng tmax amin True ?ki ?ik nn) ?keys a = Done s'"
    by simp
  have "\<exists>t t'. covers a t \<and> block_step eng tmax amin True ?ki ?ik nn k t = Done t'
            \<and> covers t' s'"
  proof (rule for_each_visits[where P = "covers a" and R = covers, OF covers_refl loop kv])
    fix y t t'
    assume yv: "y \<in> set ?keys" and P: "covers a t"
      and st: "block_step eng tmax amin True ?ki ?ik nn y t = Done t'"
    have vt: "vertices t = vertices a" by (rule covers_fields(3)[OF P])
    show "covers t t'"
    proof (rule block_step_covers[OF st])
      show "y \<in> set (vertices t)" using yv vt by simp
      show "\<And>j n. ?ik j = Some n \<Longrightarrow> n \<in> set (vertices t)" using iv vt by simp
    qed
  next
    show "covers a t'" if "covers a t" and "covers t t'" for t t'
      using that by (rule covers_trans)
    show "covers t t" for t by (rule covers_refl)
    show "covers x z" if "covers x y" and "covers y z" for x y z
      using that by (rule covers_trans)
  qed
  then obtain t t' where P: "covers a t"
    and st: "block_step eng tmax amin True ?ki ?ik nn k t = Done t'"
    and c: "covers t' s'"
    by (elim exE conjE)
  have "edge t' (k, n) \<noteq> None \<or> edge t' (n, k) \<noteq> None"
    by (rule block_step_connects[OF st ki j ik nk P kv iv bf nf ps])
  with c show ?thesis by (rule covers_connected)
qed

lemma for_each_stops:
  assumes "for_each f xs s = Done t" and "f x t = Raised e t'"
  shows "for_each f (xs @ x # ys) s = Raised e t'"
  using assms
proof (induction xs arbitrary: s)
  case Nil
  then show ?case by simp
next
  case (Cons y xs)
  from Cons.prems(1) obtain s1 where s1: "f y s = Done s1" and rest: "for_each f xs s1 = Done t"
    by (cases "f y s") simp_all
  have "for_each f (xs @ x # ys) s1 = Raised e t'"
    by (rule Cons.IH[OF rest Cons.prems(2)])
  with s1 show ?case by simp
qed

section \<open>Evaluation on the box assemblies\<close>

lemmas model_defs = identify_interfaces_def block_step_def base_face_step_def nbr_step_def
  face_step_def polygon_step_def find_nearest_neighbours_def rect_engine_def nearest_def
  dist2_def two_cubes_def add_block_def add_vertex_def Assembly_init_def cube_def
  centroid_kw_def vertices_def vertex_coordinates_def getitem_def dict_of_def
  face_coordinates_def face_vertices_def vertex_coordinates_b_def local_coords_def solve_def
  det3_def transpose3_def vsub_def vadd_def smult_def rect_polygon_def lower_def upper_def
  px_def py_def add_edge_def interface_attr_def global_coords_numpy_def flatten_z_def Let_def

lemma two_cubes_no_edges: "edge two_cubes = Map.empty"
  by (simp add: two_cubes_def add_block_def add_vertex_def Assembly_init_def Let_def
      split: prod.split)

lemma two_cubes_identified_edges:
  "(case edge two_cubes_identified (0, 1) of None \<Rightarrow> None | Some d \<Rightarrow> d ''interface_size'')
     = Some (PFloat 1)
   \<and> edge two_cubes_identified (1, 0) = None"
  unfolding two_cubes_identified_def by (simp add: model_defs)

lemma unit_square_engine:
  "Polygon rect_engine unit_square = Inr (Poly (unit_square @ [(-1/2, -1/2, 0)]))"
  "area rect_engine (Poly (unit_square @ [(-1/2, -1/2, 0)])) = 1"
  "intersects rect_engine (Poly (unit_square @ [(-1/2, -1/2, 0)]))
     (Poly (unit_square @ [(-1/2, -1/2, 0)])) = Inr True"
  "intersection rect_engine (Poly (unit_square @ [(-1/2, -1/2, 0)]))
     (Poly (unit_square @ [(-1/2, -1/2, 0)])) = Inr (Poly (unit_square @ [(-1/2, -1/2, 0)]))"
  "exterior_coords rect_engine (Poly (unit_square @ [(-1/2, -1/2, 0)]))
     = Inr (unit_square @ [(-1/2, -1/2, 0)])"
  by (simp_all add: rect_engine_def rect_polygon_def unit_square_def lower_def upper_def
      px_def py_def Let_def)

lemma two_cubes_identified_bundle:
  "(case edge two_cubes_identified (0, 1) of None \<Rightarrow> None | Some d \<Rightarrow> d ''interface_forces'')
     = Some PNone
   \<and> (case edge two_cubes_identified (0, 1) of None \<Rightarrow> None | Some d \<Rightarrow> d ''interface_points'')
     = Some (PList [PList [PFloat 0, PFloat 0, PFloat 1], PList [PFloat 1, PFloat 0, PFloat 1],
                    PList [PFloat 1, PFloat 1, PFloat 1], PList [PFloat 0, PFloat 1, PFloat 1]])
   \<and> (case edge two_cubes_identified (0, 1) of None \<Rightarrow> {} | Some d \<Rightarrow> dom d)
     = {''interface_uvw'', ''interface_origin'', ''interface_points'', ''interface_size'',
        ''interface_type'', ''interface_forces'', ''niterface_size''}"
  unfolding two_cubes_identified_def by (simp add: model_defs py_point_def py_basis_def)

lemma result_done:
  assumes "(case r of Done s \<Rightarrow> True | Raised e s \<Rightarrow> False)"
  shows "r = Done (final r)"
  using assms by (cases r) simp_all

subsection \<open>Two cubes side by side\<close>







subsection \<open>Two cubes with a gap of one millionth\<close>

lemma gap_cubes_no_edges: "edge gap_cubes = Map.empty"
  by (simp add: gap_cubes_def add_block_def add_vertex_def Assembly_init_def Let_def
      split: prod.split)

lemma gap_cubes_candidate: "candidate rect_engine gap_cubes 10 0 1"
  unfolding candidate_def
  by (simp add: model_defs gap_cubes_def) (rule exI[of _ "Suc 0"], simp)

lemma gap_cubes_base_face:
  "base_face rect_engine gap_cubes 0 (1/2, 1/2, 1) ((1, 0, 0), (0, 1, 0), (0, 0, 1))
     (Poly (unit_square @ [(-1/2, -1/2, 0)]))"
  unfolding base_face_def
  by (rule exI[of _ "cube (0, 0, 0)"]) (simp add: model_defs gap_cubes_def unit_square_def)

lemma gap_cubes_nbr_face:
  "nbr_face gap_cubes 1 (1/2, 1/2, 1) ((1, 0, 0), (0, 1, 0), (0, 0, 1)) gap_face"
  unfolding nbr_face_def
  apply (rule exI[of _ "cube (0, 0, 1 + 1/1000000)"])
  apply (simp add: model_defs gap_cubes_def gap_face_def)
  apply (rule exI[of _ 0], rule exI[of _ "[0, 3, 2, 1]"])
  apply (simp add: getitem_def)
  done

lemma gap_face_polygons:
  "Polygon rect_engine gap_face = Inr (Poly (gap_face @ [(-1/2, -1/2, 1/1000000)]))"
  "area rect_engine (Poly (gap_face @ [(-1/2, -1/2, 1/1000000)])) = 1"
  "intersects rect_engine (Poly (unit_square @ [(-1/2, -1/2, 0)]))
     (Poly (gap_face @ [(-1/2, -1/2, 1/1000000)])) = Inr True"
  "intersection rect_engine (Poly (unit_square @ [(-1/2, -1/2, 0)]))
     (Poly (gap_face @ [(-1/2, -1/2, 1/1000000)]))
     = Inr (Poly (unit_square @ [(-1/2, -1/2, 0)]))"
  by (simp_all add: rect_engine_def rect_polygon_def unit_square_def gap_face_def lower_def
      upper_def px_def py_def Let_def)

lemma gap_face_deviation: "map (\<lambda>p. \<bar>snd (snd p)\<bar>) gap_face = replicate 4 (1/1000000)"
  by (simp add: gap_face_def numeral_eq_Suc)

lemma gap_face_passes:
  "passes rect_engine (1/1000000) 1 (Poly (unit_square @ [(-1/2, -1/2, 0)])) gap_face
     (Poly (unit_square @ [(-1/2, -1/2, 0)])) (unit_square @ [(-1/2, -1/2, 0)])"
  unfolding passes_def
  using gap_face_polygons unit_square_engine(2,5) by (simp add: gap_face_def)

lemma gap_cubes_boundary_run:
  "(case identify_interfaces rect_engine gap_cubes 10 (1/1000000) 1 (1/1000) True False False of
      Done s \<Rightarrow>
        (case edge s (0, 1) of None \<Rightarrow> None | Some d \<Rightarrow> d ''interface_size'') = Some (PFloat 1)
        \<and> edge s (1, 0) = None
    | Raised e s \<Rightarrow> False)"
  by (simp add: model_defs gap_cubes_def)

lemma gap_cubes_beyond:
  "identify_interfaces rect_engine gap_cubes 10 (1/2000000) 1 (1/1000) True False False
     = Done gap_cubes"
  by (simp add: model_defs gap_cubes_def)

subsection \<open>Blocks with a failing or a singular frame\<close>

lemma sliver_stack_aborts:
  "identify_interfaces rect_engine sliver_stack 10 (1/1000000) (1/10) (1/1000) True False False
     = Raised GeometryError sliver_stack"
  by (simp add: model_defs sliver_stack_def sliver_cube_def)

lemma skew_stack_aborts:
  "identify_interfaces rect_engine skew_stack 10 (1/1000000) (1/10) (1/1000) True False False
     = Raised LinAlgError skew_stack"
  by (simp add: model_defs skew_stack_def skew_cube_def)

lemma stack_blocks:
  "vertices sliver_stack = [0, 1]" "blocks sliver_stack 0 = Some sliver_cube"
  "vertices skew_stack = [0, 1]" "blocks skew_stack 0 = Some skew_cube"
  "edge sliver_stack = Map.empty" "edge skew_stack = Map.empty"
  by (simp_all add: sliver_stack_def skew_stack_def add_block_def add_vertex_def
      Assembly_init_def Let_def vertices_def split: prod.split)

subsection \<open>The two stacked cubes with parameters out of range\<close>

lemma two_cubes_nmax_zero:
  "identify_interfaces rect_engine two_cubes 0 (1/1000000) (1/10) (1/1000) True False False
     = Raised ValueError two_cubes"
  by (simp add: model_defs)

lemma two_cubes_negative_amin:
  "(case identify_interfaces rect_engine two_cubes 10 (1/1000000) (-1) (-1) True False False of
      Done s \<Rightarrow> (case edge s (0, 1) of None \<Rightarrow> None | Some d \<Rightarrow> d ''interface_size'')
    | Raised e s \<Rightarrow> None) = Some (PFloat 1)"
  by (simp add: model_defs)

lemma two_cubes_negative_tmax:
  "identify_interfaces rect_engine two_cubes 10 (-1) (-1) (-1) True False False
     = Done two_cubes"
  by (simp add: model_defs)

lemma two_cubes_set_up:
  "map_or_raise (getitem (blocks two_cubes)) (vertices two_cubes)
     = Inr [cube (0, 0, 0), cube (0, 0, 1)]"
  "map_or_raise (vertex_coordinates two_cubes) (vertices two_cubes)
     = Inr [[PFloat (1/2), PFloat (1/2), PFloat (1/2)],
            [PFloat (1/2), PFloat (1/2), PFloat (3/2)]]"
  "find_nearest_neighbours rect_engine
     [[PFloat (1/2), PFloat (1/2), PFloat (1/2)], [PFloat (1/2), PFloat (1/2), PFloat (3/2)]]
     (min 0 (int (length [cube (0, 0, 0), cube (0, 0, 1)]))) = Inl ValueError"
  by (simp_all add: two_cubes_def add_block_def add_vertex_def Assembly_init_def Let_def
      vertices_def vertex_coordinates_def getitem_def dict_of_def centroid_kw_def cube_def
      find_nearest_neighbours_def rect_engine_def nearest_def split: prod.split)

lemma two_cubes_faces: "faces_have_vertices two_cubes"
  unfolding faces_have_vertices_def
  by (auto simp: two_cubes_def add_block_def add_vertex_def Assembly_init_def Let_def
      cube_def split: prod.splits if_splits)

section \<open>Claims\<close>

text \<open>
  C1. After a pass at most one edge exists between a pair of blocks: a pair connected
  in either direction before the pass keeps exactly its edges (the candidate is skipped),
  a pair ends with edges in both directions only if it had both before, and an assembly
  with at most one edge per pair of distinct nodes stays so, whatever the order of the
  nodes.
\<close>

theorem at_most_one_edge_per_pair:
  assumes run: "s' = final (identify_interfaces eng a nmax tmax amin lmin face_face face_edge face_vertex)"
  shows "(edge a (k, n) \<noteq> None \<or> edge a (n, k) \<noteq> None
            \<longrightarrow> edge s' (k, n) = edge a (k, n) \<and> edge s' (n, k) = edge a (n, k))
         \<and> (edge s' (k, n) \<noteq> None \<and> edge s' (n, k) \<noteq> None
            \<longrightarrow> edge s' (k, n) = edge a (k, n) \<and> edge s' (n, k) = edge a (n, k))
         \<and> ((\<forall>i j. i \<noteq> j \<longrightarrow> edge a (i, j) = None \<or> edge a (j, i) = None)
            \<longrightarrow> (\<forall>i j. i \<noteq> j \<longrightarrow> edge s' (i, j) = None \<or> edge s' (j, i) = None))"
proof -
  have G: "interfaces_added amin a s'"
    unfolding run by (rule identify_interfaces_added)
  have pair: "edge s' (i, j) = edge a (i, j) \<or>
      (edge a (i, j) = None \<and> edge a (j, i) = None \<and> edge s' (j, i) = None)" for i j
    using G unfolding interfaces_added_def by blast
  have c1: "edge a (k, n) \<noteq> None \<or> edge a (n, k) \<noteq> None
            \<longrightarrow> edge s' (k, n) = edge a (k, n) \<and> edge s' (n, k) = edge a (n, k)"
    by (rule pair_logic(1)[OF pair[of k n] pair[of n k]])
  have c2: "edge s' (k, n) \<noteq> None \<and> edge s' (n, k) \<noteq> None
            \<longrightarrow> edge s' (k, n) = edge a (k, n) \<and> edge s' (n, k) = edge a (n, k)"
    by (rule pair_logic(2)[OF pair[of k n] pair[of n k]])
  have c3: "(\<forall>i j. i \<noteq> j \<longrightarrow> edge a (i, j) = None \<or> edge a (j, i) = None)
            \<longrightarrow> (\<forall>i j. i \<noteq> j \<longrightarrow> edge s' (i, j) = None \<or> edge s' (j, i) = None)"
  proof (intro impI allI)
    fix i j :: int
    assume inv: "\<forall>i j. i \<noteq> j \<longrightarrow> edge a (i, j) = None \<or> edge a (j, i) = None" and ne: "i \<noteq> j"
    have "edge a (i, j) = None \<or> edge a (j, i) = None" by (rule inv[rule_format, OF ne])
    then show "edge s' (i, j) = None \<or> edge s' (j, i) = None"
      using pair_logic(3)[OF pair[of i j] pair[of j i]] by (rule rev_mp)
  qed
  show ?thesis by (intro conjI c1 c2 c3)
qed

theorem at_most_one_edge_per_pair_witness:
  "edge two_cubes (0, 1) = None
   \<and> edge two_cubes_identified (0, 1) \<noteq> None
   \<and> edge two_cubes_identified (1, 0) = None
   \<and> edge (final (identify_interfaces rect_engine two_cubes_identified 10 (1/1000000) (1/10)
               (1/1000) True False False)) (0, 1) = edge two_cubes_identified (0, 1)
   \<and> edge (final (identify_interfaces rect_engine two_cubes_identified 10 (1/1000000) (1/10)
               (1/1000) True False False)) (1, 0) = edge two_cubes_identified (1, 0)"
proof -
  have e01: "edge two_cubes_identified (0, 1) \<noteq> None"
    using two_cubes_identified_edges by (auto split: option.splits)
  have start: "\<forall>i j. i \<noteq> j \<longrightarrow> edge two_cubes (i, j) = None \<or> edge two_cubes (j, i) = None"
    by (simp add: two_cubes_no_edges)
  note first = at_most_one_edge_per_pair[OF two_cubes_identified_def, of 0 1,
      THEN conjunct2, THEN conjunct2, THEN mp, OF start]
  have "edge two_cubes_identified (0, 1) = None \<or> edge two_cubes_identified (1, 0) = None"
    by (rule first[rule_format]) simp
  then have e10: "edge two_cubes_identified (1, 0) = None"
  proof
    assume "edge two_cubes_identified (0, 1) = None"
    with e01 show ?thesis by (rule notE)
  qed
  note second = at_most_one_edge_per_pair[OF refl, of two_cubes_identified 0 1 rect_engine 10
        "1/1000000" "1/10" "1/1000" True False False, THEN conjunct1, THEN mp, OF disjI1, OF e01]
  have e0: "edge two_cubes (0, 1) = None"
    by (simp add: two_cubes_no_edges)
  show ?thesis by (intro conjI e0 e01 e10 conjunct1[OF second] conjunct2[OF second])
qed




text \<open>
  C3. A neighbour face is rejected as non-coplanar exactly when some projected vertex has
  an out-of-plane coordinate greater than \<open>tmax\<close> in absolute value. In the loop over
  the faces of a neighbour, such a face is skipped before its polygon is built, and every
  other face goes on to the polygon tests. For the pass as a whole: a face of a neighbour
  \<open>n \<noteq> k\<close> that the spatial index returns for \<open>k\<close>, all of whose vertices deviate
  from the plane of a face of \<open>k\<close> by at most \<open>tmax\<close> (exactly \<open>tmax\<close> included),
  is accepted as coplanar, so that, when it also passes the polygon tests, a pass that
  returns leaves \<open>k\<close> and \<open>n\<close> connected; and every edge that a pass creates
  carries the interface of a face pair that passes every test, with no vertex of the
  neighbour face further than \<open>tmax\<close> out of the plane, so that a face with a
  deviation of \<open>tmax + \<epsilon>\<close> at any vertex yields no edge.
\<close>

theorem coplanarity_tolerance:
  "(map_or_raise (getitem rst) (snd f1) = Inr rst1 \<longrightarrow>
      face_step eng tmax amin k og uvw p0 n rst f1 s =
        (if (\<exists>p\<in>set rst1. tmax < \<bar>snd (snd p)\<bar>) then Done s
         else polygon_step eng amin k og uvw p0 n rst1 s))
   \<and> (map_or_raise (getitem rst) (snd f1) = Inr rst1
        \<and> (\<exists>p\<in>set rst1. \<exists>\<epsilon>>0. \<bar>snd (snd p)\<bar> = tmax + \<epsilon>) \<longrightarrow>
      face_step eng tmax amin k og uvw p0 n rst f1 s = Done s)
   \<and> (base_face eng a k og uvw p0 \<and> nbr_face a n og uvw rst1
        \<and> (\<forall>p\<in>set rst1. \<bar>snd (snd p)\<bar> \<le> tmax)
        \<and> Polygon eng rst1 = Inr p1 \<and> area eng p1 \<noteq> 0
        \<and> intersects eng p0 p1 = Inr True \<and> intersection eng p0 p1 = Inr isec
        \<and> amin \<le> area eng isec \<and> exterior_coords eng isec = Inr cs
        \<and> candidate eng a nmax k n \<and> n \<noteq> k
        \<and> identify_interfaces eng a nmax tmax amin lmin True face_edge face_vertex = Done s'
        \<longrightarrow> edge s' (k, n) \<noteq> None \<or> edge s' (n, k) \<noteq> None)
   \<and> (\<forall>i j. edge (final (identify_interfaces eng a nmax tmax amin lmin face_face face_edge
                           face_vertex)) (i, j) \<noteq> edge a (i, j) \<longrightarrow>
         (\<exists>og' uvw' q0 rst' isec' cs'.
            base_face eng a i og' uvw' q0 \<and> nbr_face a j og' uvw' rst'
            \<and> passes eng tmax amin q0 rst' isec' cs'
            \<and> (\<forall>p\<in>set rst'. \<bar>snd (snd p)\<bar> \<le> tmax)
            \<and> \<not> (\<exists>p\<in>set rst'. \<exists>\<epsilon>>0. \<bar>snd (snd p)\<bar> = tmax + \<epsilon>)
            \<and> edge (final (identify_interfaces eng a nmax tmax amin lmin face_face face_edge
                              face_vertex)) (i, j)
                = Some (default_edge_attributes a
                          ++ interface_attr (area eng isec')
                               (global_coords_numpy og' uvw' (flatten_z cs')) og' uvw')))"
proof -
  let ?r = "final (identify_interfaces eng a nmax tmax amin lmin face_face face_edge
                     face_vertex)"
  have main: "map_or_raise (getitem rst) (snd f1) = Inr rst1 \<longrightarrow>
      face_step eng tmax amin k og uvw p0 n rst f1 s =
        (if (\<exists>p\<in>set rst1. tmax < \<bar>snd (snd p)\<bar>) then Done s
         else polygon_step eng amin k og uvw p0 n rst1 s)"
    by (simp add: face_step_def list_ex_off_plane)
  have beyond: "map_or_raise (getitem rst) (snd f1) = Inr rst1
        \<and> (\<exists>p\<in>set rst1. \<exists>\<epsilon>>0. \<bar>snd (snd p)\<bar> = tmax + \<epsilon>) \<longrightarrow>
      face_step eng tmax amin k og uvw p0 n rst f1 s = Done s"
  proof
    assume h: "map_or_raise (getitem rst) (snd f1) = Inr rst1
        \<and> (\<exists>p\<in>set rst1. \<exists>\<epsilon>>0. \<bar>snd (snd p)\<bar> = tmax + \<epsilon>)"
    then have "\<exists>p\<in>set rst1. tmax < \<bar>snd (snd p)\<bar>" by force
    with h main show "face_step eng tmax amin k og uvw p0 n rst f1 s = Done s" by simp
  qed
  have within: "base_face eng a k og uvw p0 \<and> nbr_face a n og uvw rst1
        \<and> (\<forall>p\<in>set rst1. \<bar>snd (snd p)\<bar> \<le> tmax)
        \<and> Polygon eng rst1 = Inr p1 \<and> area eng p1 \<noteq> 0
        \<and> intersects eng p0 p1 = Inr True \<and> intersection eng p0 p1 = Inr isec
        \<and> amin \<le> area eng isec \<and> exterior_coords eng isec = Inr cs
        \<and> candidate eng a nmax k n \<and> n \<noteq> k
        \<and> identify_interfaces eng a nmax tmax amin lmin True face_edge face_vertex = Done s'
        \<longrightarrow> edge s' (k, n) \<noteq> None \<or> edge s' (n, k) \<noteq> None"
  proof
    assume h: "base_face eng a k og uvw p0 \<and> nbr_face a n og uvw rst1
        \<and> (\<forall>p\<in>set rst1. \<bar>snd (snd p)\<bar> \<le> tmax)
        \<and> Polygon eng rst1 = Inr p1 \<and> area eng p1 \<noteq> 0
        \<and> intersects eng p0 p1 = Inr True \<and> intersection eng p0 p1 = Inr isec
        \<and> amin \<le> area eng isec \<and> exterior_coords eng isec = Inr cs
        \<and> candidate eng a nmax k n \<and> n \<noteq> k
        \<and> identify_interfaces eng a nmax tmax amin lmin True face_edge face_vertex = Done s'"
    then have bf: "base_face eng a k og uvw p0" and nf: "nbr_face a n og uvw rst1"
      and cp: "\<forall>p\<in>set rst1. \<bar>snd (snd p)\<bar> \<le> tmax"
      and pg: "Polygon eng rst1 = Inr p1 \<and> area eng p1 \<noteq> 0
        \<and> intersects eng p0 p1 = Inr True \<and> intersection eng p0 p1 = Inr isec"
      and ar: "amin \<le> area eng isec" and ex: "exterior_coords eng isec = Inr cs"
      and cand: "candidate eng a nmax k n" and nk: "n \<noteq> k"
      and run: "identify_interfaces eng a nmax tmax amin lmin True face_edge face_vertex
                  = Done s'"
      by simp_all
    from pg have "\<exists>p1. Polygon eng rst1 = Inr p1 \<and> area eng p1 \<noteq> 0
        \<and> intersects eng p0 p1 = Inr True \<and> intersection eng p0 p1 = Inr isec"
      by (rule exI)
    then have ps: "passes eng tmax amin p0 rst1 isec cs"
      unfolding passes_def using cp ar ex by (intro conjI)
    show "edge s' (k, n) \<noteq> None \<or> edge s' (n, k) \<noteq> None"
      by (rule pass_complete[OF run cand nk bf nf ps])
  qed
  have T: "interfaces_traced eng tmax amin a ?r"
    by (rule identify_interfaces_traced)
  have created: "\<forall>i j. edge ?r (i, j) \<noteq> edge a (i, j) \<longrightarrow>
         (\<exists>og' uvw' q0 rst' isec' cs'.
            base_face eng a i og' uvw' q0 \<and> nbr_face a j og' uvw' rst'
            \<and> passes eng tmax amin q0 rst' isec' cs'
            \<and> (\<forall>p\<in>set rst'. \<bar>snd (snd p)\<bar> \<le> tmax)
            \<and> \<not> (\<exists>p\<in>set rst'. \<exists>\<epsilon>>0. \<bar>snd (snd p)\<bar> = tmax + \<epsilon>)
            \<and> edge ?r (i, j)
                = Some (default_edge_attributes a
                          ++ interface_attr (area eng isec')
                               (global_coords_numpy og' uvw' (flatten_z cs')) og' uvw'))"
  proof (intro allI impI)
    fix i j
    assume new: "edge ?r (i, j) \<noteq> edge a (i, j)"
    from T have "edge ?r (i, j) = edge a (i, j) \<or>
        (\<exists>og uvw p0 rst1 isec cs.
           base_face eng a i og uvw p0 \<and> nbr_face a j og uvw rst1
           \<and> passes eng tmax amin p0 rst1 isec cs
           \<and> edge ?r (i, j) =
               Some (default_edge_attributes a
                       ++ interface_attr (area eng isec)
                            (global_coords_numpy og uvw (flatten_z cs)) og uvw))"
      unfolding interfaces_traced_def by (elim allE)
    with new obtain og' uvw' q0 rst' isec' cs' where
      bf: "base_face eng a i og' uvw' q0" and nf: "nbr_face a j og' uvw' rst'"
      and ps: "passes eng tmax amin q0 rst' isec' cs'"
      and e: "edge ?r (i, j) = Some (default_edge_attributes a
                       ++ interface_attr (area eng isec')
                            (global_coords_numpy og' uvw' (flatten_z cs')) og' uvw')"
      by (elim disjE exE conjE) simp_all
    have cp: "\<forall>p\<in>set rst'. \<bar>snd (snd p)\<bar> \<le> tmax"
      using ps unfolding passes_def by (elim conjE)
    have no: "\<not> (\<exists>p\<in>set rst'. \<exists>\<epsilon>>0. \<bar>snd (snd p)\<bar> = tmax + \<epsilon>)"
    proof
      assume "\<exists>p\<in>set rst'. \<exists>\<epsilon>>0. \<bar>snd (snd p)\<bar> = tmax + \<epsilon>"
      then obtain p \<epsilon> where p: "p \<in> set rst'" and pos: "0 < \<epsilon>"
        and eq: "\<bar>snd (snd p)\<bar> = tmax + \<epsilon>"
        by (elim bexE exE conjE)
      from cp p have "\<bar>snd (snd p)\<bar> \<le> tmax" by (rule bspec)
      with eq pos show False by simp
    qed
    have "base_face eng a i og' uvw' q0 \<and> nbr_face a j og' uvw' rst'
            \<and> passes eng tmax amin q0 rst' isec' cs'
            \<and> (\<forall>p\<in>set rst'. \<bar>snd (snd p)\<bar> \<le> tmax)
            \<and> \<not> (\<exists>p\<in>set rst'. \<exists>\<epsilon>>0. \<bar>snd (snd p)\<bar> = tmax + \<epsilon>)
            \<and> edge ?r (i, j)
                = Some (default_edge_attributes a
                          ++ interface_attr (area eng isec')
                               (global_coords_numpy og' uvw' (flatten_z cs')) og' uvw')"
      by (intro conjI bf nf ps cp no e)
    then show "\<exists>og' uvw' q0 rst' isec' cs'.
            base_face eng a i og' uvw' q0 \<and> nbr_face a j og' uvw' rst'
            \<and> passes eng tmax amin q0 rst' isec' cs'
            \<and> (\<forall>p\<in>set rst'. \<bar>snd (snd p)\<bar> \<le> tmax)
            \<and> \<not> (\<exists>p\<in>set rst'. \<exists>\<epsilon>>0. \<bar>snd (snd p)\<bar> = tmax + \<epsilon>)
            \<and> edge ?r (i, j)
                = Some (default_edge_attributes a
                          ++ interface_attr (area eng isec')
                               (global_coords_numpy og' uvw' (flatten_z cs')) og' uvw')"
      by (intro exI)
  qed
  show ?thesis by (intro conjI main beyond within created)
qed

theorem coplanarity_tolerance_witness:
  "map_or_raise (getitem ([0 \<mapsto> (-1/2, -1/2, 1/1000000), 1 \<mapsto> (1/2, -1/2, 1/1000000),
        2 \<mapsto> (1/2, 1/2, 1/1000000), 3 \<mapsto> (-1/2, 1/2, 1/1000000)] :: int \<rightharpoonup> point))
      [0, 3, 2, 1] = Inr gap_face
   \<and> map (\<lambda>p. \<bar>snd (snd p)\<bar>) gap_face = replicate 4 (1/1000000)
   \<and> face_step rect_engine (1/1000000) 1 0 (1/2, 1/2, 1) ((1, 0, 0), (0, 1, 0), (0, 0, 1))
        (Poly (unit_square @ [(-1/2, -1/2, 0)])) 1
        [0 \<mapsto> (-1/2, -1/2, 1/1000000), 1 \<mapsto> (1/2, -1/2, 1/1000000),
         2 \<mapsto> (1/2, 1/2, 1/1000000), 3 \<mapsto> (-1/2, 1/2, 1/1000000)] (0, [0, 3, 2, 1]) gap_cubes
     = polygon_step rect_engine 1 0 (1/2, 1/2, 1) ((1, 0, 0), (0, 1, 0), (0, 0, 1))
        (Poly (unit_square @ [(-1/2, -1/2, 0)])) 1 gap_face gap_cubes
   \<and> face_step rect_engine (1/2000000) 1 0 (1/2, 1/2, 1) ((1, 0, 0), (0, 1, 0), (0, 0, 1))
        (Poly (unit_square @ [(-1/2, -1/2, 0)])) 1
        [0 \<mapsto> (-1/2, -1/2, 1/1000000), 1 \<mapsto> (1/2, -1/2, 1/1000000),
         2 \<mapsto> (1/2, 1/2, 1/1000000), 3 \<mapsto> (-1/2, 1/2, 1/1000000)] (0, [0, 3, 2, 1]) gap_cubes
     = Done gap_cubes
   \<and> base_face rect_engine gap_cubes 0 (1/2, 1/2, 1) ((1, 0, 0), (0, 1, 0), (0, 0, 1))
       (Poly (unit_square @ [(-1/2, -1/2, 0)]))
   \<and> nbr_face gap_cubes 1 (1/2, 1/2, 1) ((1, 0, 0), (0, 1, 0), (0, 0, 1)) gap_face
   \<and> passes rect_engine (1/1000000) 1 (Poly (unit_square @ [(-1/2, -1/2, 0)])) gap_face
       (Poly (unit_square @ [(-1/2, -1/2, 0)])) (unit_square @ [(-1/2, -1/2, 0)])
   \<and> candidate rect_engine gap_cubes 10 0 1
   \<and> identify_interfaces rect_engine gap_cubes 10 (1/1000000) 1 (1/1000) True False False
       = Done (final (identify_interfaces rect_engine gap_cubes 10 (1/1000000) 1 (1/1000)
                        True False False))
   \<and> edge gap_cubes (0, 1) = None
   \<and> edge (final (identify_interfaces rect_engine gap_cubes 10 (1/1000000) 1 (1/1000)
                     True False False)) (0, 1) \<noteq> None
   \<and> (\<exists>og' uvw' q0 rst' isec' cs'.
         base_face rect_engine gap_cubes 0 og' uvw' q0 \<and> nbr_face gap_cubes 1 og' uvw' rst'
         \<and> passes rect_engine (1/1000000) 1 q0 rst' isec' cs'
         \<and> (\<forall>p\<in>set rst'. \<bar>snd (snd p)\<bar> \<le> 1/1000000)
         \<and> \<not> (\<exists>p\<in>set rst'. \<exists>\<epsilon>>0. \<bar>snd (snd p)\<bar> = 1/1000000 + \<epsilon>)
         \<and> edge (final (identify_interfaces rect_engine gap_cubes 10 (1/1000000) 1 (1/1000)
                           True False False)) (0, 1)
             = Some (default_edge_attributes gap_cubes
                       ++ interface_attr (area rect_engine isec')
                            (global_coords_numpy og' uvw' (flatten_z cs')) og' uvw'))
   \<and> identify_interfaces rect_engine gap_cubes 10 (1/2000000) 1 (1/1000) True False False
       = Done gap_cubes"
proof -
  let ?og = "(1/2, 1/2, 1) :: point"
  let ?uvw = "((1, 0, 0), (0, 1, 0), (0, 0, 1)) :: basis"
  let ?P = "Poly (unit_square @ [(-1/2, -1/2, 0)])"
  let ?ring = "unit_square @ [(-1/2, -1/2, 0)]"
  let ?G = "Poly (gap_face @ [(-1/2, -1/2, 1/1000000)])"
  let ?A = "[0 \<mapsto> (-1/2, -1/2, 1/1000000), 1 \<mapsto> (1/2, -1/2, 1/1000000),
        2 \<mapsto> (1/2, 1/2, 1/1000000), 3 \<mapsto> (-1/2, 1/2, 1/1000000)] :: int \<rightharpoonup> point"
  let ?run = "identify_interfaces rect_engine gap_cubes 10 (1/1000000) 1 (1/1000)
      True False False"
  have la: "map_or_raise (getitem ?A) (snd (0 :: int, [0, 3, 2, 1 :: int])) = Inr gap_face"
    by (simp add: getitem_def gap_face_def)
  have la': "map_or_raise (getitem ?A) [0, 3, 2, 1 :: int] = Inr gap_face"
    using la by simp
  have dev: "map (\<lambda>p. \<bar>snd (snd p)\<bar>) gap_face = replicate 4 (1/1000000)"
    by (rule gap_face_deviation)
  have cp: "\<forall>p\<in>set gap_face. \<bar>snd (snd p)\<bar> \<le> 1/1000000"
    by (simp add: gap_face_def)
  have inside: "\<not> (\<exists>p\<in>set gap_face. 1/1000000 < \<bar>snd (snd p)\<bar>)"
    by (simp add: gap_face_def)
  have "face_step rect_engine (1/1000000) 1 0 ?og ?uvw ?P 1 ?A (0, [0, 3, 2, 1]) gap_cubes
      = (if (\<exists>p\<in>set gap_face. 1/1000000 < \<bar>snd (snd p)\<bar>) then Done gap_cubes
         else polygon_step rect_engine 1 0 ?og ?uvw ?P 1 gap_face gap_cubes)"
    by (rule coplanarity_tolerance[where rst = ?A and ?f1.0 = "(0, [0, 3, 2, 1])"
          and ?rst1.0 = gap_face, THEN conjunct1, THEN mp, OF la])
  with inside have t1: "face_step rect_engine (1/1000000) 1 0 ?og ?uvw ?P 1 ?A (0, [0, 3, 2, 1])
      gap_cubes = polygon_step rect_engine 1 0 ?og ?uvw ?P 1 gap_face gap_cubes"
    by simp
  have outside: "\<exists>p\<in>set gap_face. \<exists>\<epsilon>>0. \<bar>snd (snd p)\<bar> = 1/2000000 + \<epsilon>"
    by (intro bexI[of _ "(-1/2, -1/2, 1/1000000)"] exI[of _ "1/2000000"])
       (simp_all add: gap_face_def)
  have h2: "map_or_raise (getitem ?A) (snd (0 :: int, [0, 3, 2, 1 :: int])) = Inr gap_face
      \<and> (\<exists>p\<in>set gap_face. \<exists>\<epsilon>>0. \<bar>snd (snd p)\<bar> = 1/2000000 + \<epsilon>)"
    by (intro conjI la outside)
  note t2 = coplanarity_tolerance[where rst = ?A and ?f1.0 = "(0, [0, 3, 2, 1])"
      and ?rst1.0 = gap_face and tmax = "1/2000000" and eng = rect_engine and amin = 1
      and k = 0 and og = ?og and uvw = ?uvw and ?p0.0 = ?P and n = 1 and s = gap_cubes,
      THEN conjunct2, THEN conjunct1, THEN mp, OF h2]
  have d: "(case ?run of Done s \<Rightarrow> True | Raised e s \<Rightarrow> False)"
    using gap_cubes_boundary_run by (cases ?run) simp_all
  have run: "?run = Done (final ?run)" by (rule result_done[OF d])
  have nz: "area rect_engine ?G \<noteq> 0" using gap_face_polygons(2) by simp
  have ar: "(1 :: real) \<le> area rect_engine ?P" using unit_square_engine(2) by simp
  have nk: "(1 :: int) \<noteq> 0" by simp
  have h3: "base_face rect_engine gap_cubes 0 ?og ?uvw ?P \<and> nbr_face gap_cubes 1 ?og ?uvw gap_face
        \<and> (\<forall>p\<in>set gap_face. \<bar>snd (snd p)\<bar> \<le> 1/1000000)
        \<and> Polygon rect_engine gap_face = Inr ?G \<and> area rect_engine ?G \<noteq> 0
        \<and> intersects rect_engine ?P ?G = Inr True \<and> intersection rect_engine ?P ?G = Inr ?P
        \<and> 1 \<le> area rect_engine ?P \<and> exterior_coords rect_engine ?P = Inr ?ring
        \<and> candidate rect_engine gap_cubes 10 0 1 \<and> (1 :: int) \<noteq> 0
        \<and> ?run = Done (final ?run)"
    by (intro conjI gap_cubes_base_face gap_cubes_nbr_face cp gap_face_polygons(1,3,4) nz ar
        unit_square_engine(5) gap_cubes_candidate nk run)
  note t3 = coplanarity_tolerance[where eng = rect_engine and a = gap_cubes and k = 0
      and og = ?og and uvw = ?uvw and ?p0.0 = ?P and n = 1 and ?rst1.0 = gap_face
      and tmax = "1/1000000" and ?p1.0 = ?G and isec = ?P and amin = 1 and cs = ?ring
      and nmax = 10 and lmin = "1/1000" and face_edge = False and face_vertex = False
      and s' = "final ?run", THEN conjunct2, THEN conjunct2, THEN conjunct1, THEN mp, OF h3]
  have e0: "edge gap_cubes (0, 1) = None" by (simp add: gap_cubes_no_edges)
  have e10: "edge (final ?run) (1, 0) = None"
    using gap_cubes_boundary_run by (cases ?run) simp_all
  have e01: "edge (final ?run) (0, 1) \<noteq> None"
    using t3 e10 by simp
  have new: "edge (final ?run) (0, 1) \<noteq> edge gap_cubes (0, 1)"
    using e01 e0 by simp
  note t4 = coplanarity_tolerance[where eng = rect_engine and a = gap_cubes
      and tmax = "1/1000000" and amin = 1 and nmax = 10 and lmin = "1/1000"
      and face_face = True and face_edge = False and face_vertex = False,
      THEN conjunct2, THEN conjunct2, THEN conjunct2, rule_format, OF new]
  show ?thesis
    by (intro conjI la' dev t1 t2 gap_cubes_base_face gap_cubes_nbr_face gap_face_passes
        gap_cubes_candidate run e0 e01 t4 gap_cubes_beyond)
qed

text \<open>
  C4, as the claim states it, fails: the edge that the pass creates between the two
  stacked cubes carries \<open>interface_forces\<close> beside the five fields, since a new edge
  starts from the default edge attributes.
\<close>

theorem bundle_exactly_five_fields_counterexample:
  "edge two_cubes (0, 1) = None
   \<and> (case edge two_cubes_identified (0, 1) of None \<Rightarrow> None | Some d \<Rightarrow> d ''interface_forces'')
       = Some PNone
   \<and> (case edge two_cubes_identified (0, 1) of None \<Rightarrow> {} | Some d \<Rightarrow> dom d)
       \<noteq> {''interface_type'', ''interface_size'', ''interface_points'', ''interface_origin'',
           ''interface_uvw''}"
proof -
  have e0: "edge two_cubes (0, 1) = None" by (simp add: two_cubes_no_edges)
  have f: "(case edge two_cubes_identified (0, 1) of None \<Rightarrow> None
            | Some d \<Rightarrow> d ''interface_forces'') = Some PNone"
    using two_cubes_identified_bundle by (rule conjunct1)
  have "''interface_forces'' \<in> (case edge two_cubes_identified (0, 1) of None \<Rightarrow> {}
            | Some d \<Rightarrow> dom d)"
    using f by (auto split: option.splits)
  moreover have "''interface_forces'' \<notin> {''interface_type'', ''interface_size'',
      ''interface_points'', ''interface_origin'', ''interface_uvw''}"
    by simp
  ultimately have ne: "(case edge two_cubes_identified (0, 1) of None \<Rightarrow> {} | Some d \<Rightarrow> dom d)
       \<noteq> {''interface_type'', ''interface_size'', ''interface_points'', ''interface_origin'',
           ''interface_uvw''}"
    by metis
  show ?thesis by (intro conjI e0 f ne)
qed

text \<open>
  C4, amended. Every edge that a pass creates carries the default edge attributes of the
  assembly overwritten by the five fields \<open>interface_type\<close> (face_face),
  \<open>interface_size\<close>, \<open>interface_points\<close>, \<open>interface_origin\<close> and
  \<open>interface_uvw\<close> of one pair of faces of its two blocks that passes every test:
  \<open>interface_size\<close> is the area of the intersection of the two face polygons,
  \<open>interface_origin\<close> and \<open>interface_uvw\<close> are the frame of the base face, and
  \<open>interface_points\<close> is the exterior ring of that intersection, mapped back to world
  coordinates with the third local coordinate set to zero, without its last (closing)
  point. The keys of the bundle are the five fields and the keys of the default edge
  attributes; a default attribute that is not one of the five fields, such as
  \<open>interface_forces\<close>, keeps its default value.
\<close>

theorem interface_attribute_bundle:
  assumes run: "s' = final (identify_interfaces eng a nmax tmax amin lmin face_face face_edge
                              face_vertex)"
    and new: "edge s' (k, n) \<noteq> edge a (k, n)"
  shows "\<exists>d og uvw p0 rst1 p1 isec cs.
           edge s' (k, n) = Some d
           \<and> base_face eng a k og uvw p0 \<and> nbr_face a n og uvw rst1
           \<and> passes eng tmax amin p0 rst1 isec cs
           \<and> Polygon eng rst1 = Inr p1 \<and> intersection eng p0 p1 = Inr isec
           \<and> exterior_coords eng isec = Inr cs
           \<and> d = default_edge_attributes a
                  ++ interface_attr (area eng isec)
                       (global_coords_numpy og uvw (flatten_z cs)) og uvw
           \<and> dom d = dom (default_edge_attributes a)
                        \<union> {''interface_type'', ''interface_size'', ''interface_points'',
                            ''interface_origin'', ''interface_uvw''}
           \<and> (\<forall>key. key \<notin> {''interface_type'', ''interface_size'', ''interface_points'',
                              ''interface_origin'', ''interface_uvw''}
                  \<longrightarrow> d key = default_edge_attributes a key)
           \<and> d ''interface_type'' = Some (PStr ''face_face'')
           \<and> d ''interface_size'' = Some (PFloat (area eng isec))
           \<and> d ''interface_points''
               = Some (PList (map py_point
                                (butlast (global_coords_numpy og uvw (flatten_z cs)))))
           \<and> d ''interface_origin'' = Some (py_point og)
           \<and> d ''interface_uvw'' = Some (py_basis uvw)"
proof -
  have T: "interfaces_traced eng tmax amin a s'"
    unfolding run by (rule identify_interfaces_traced)
  then have "edge s' (k, n) = edge a (k, n) \<or>
        (\<exists>og uvw p0 rst1 isec cs.
           base_face eng a k og uvw p0 \<and> nbr_face a n og uvw rst1
           \<and> passes eng tmax amin p0 rst1 isec cs
           \<and> edge s' (k, n) =
               Some (default_edge_attributes a
                       ++ interface_attr (area eng isec)
                            (global_coords_numpy og uvw (flatten_z cs)) og uvw))"
    unfolding interfaces_traced_def by (elim allE)
  with new obtain og uvw p0 rst1 isec cs where
    bf: "base_face eng a k og uvw p0" and nf: "nbr_face a n og uvw rst1"
    and ps: "passes eng tmax amin p0 rst1 isec cs"
    and e: "edge s' (k, n) = Some (default_edge_attributes a
          ++ interface_attr (area eng isec) (global_coords_numpy og uvw (flatten_z cs)) og uvw)"
    by (elim disjE exE conjE) simp_all
  from ps obtain p1 where pg: "Polygon eng rst1 = Inr p1"
    and isx: "intersection eng p0 p1 = Inr isec" and ex: "exterior_coords eng isec = Inr cs"
    unfolding passes_def by (elim conjE exE)
  let ?c = "global_coords_numpy og uvw (flatten_z cs)"
  let ?d = "default_edge_attributes a ++ interface_attr (area eng isec) ?c og uvw"
  have dm: "dom ?d = dom (default_edge_attributes a)
                        \<union> {''interface_type'', ''interface_size'', ''interface_points'',
                            ''interface_origin'', ''interface_uvw''}"
    by (simp only: dom_map_add dom_interface_attr Un_commute)
  have keep: "\<forall>key. key \<notin> {''interface_type'', ''interface_size'', ''interface_points'',
                              ''interface_origin'', ''interface_uvw''}
                  \<longrightarrow> ?d key = default_edge_attributes a key"
  proof (intro allI impI)
    fix key :: string
    assume "key \<notin> {''interface_type'', ''interface_size'', ''interface_points'',
                     ''interface_origin'', ''interface_uvw''}"
    then have "key \<notin> dom (interface_attr (area eng isec) ?c og uvw)"
      unfolding dom_interface_attr .
    then show "?d key = default_edge_attributes a key"
      by (simp add: map_add_dom_app_simps)
  qed
  have all: "edge s' (k, n) = Some ?d
           \<and> base_face eng a k og uvw p0 \<and> nbr_face a n og uvw rst1
           \<and> passes eng tmax amin p0 rst1 isec cs
           \<and> Polygon eng rst1 = Inr p1 \<and> intersection eng p0 p1 = Inr isec
           \<and> exterior_coords eng isec = Inr cs
           \<and> ?d = ?d
           \<and> dom ?d = dom (default_edge_attributes a)
                        \<union> {''interface_type'', ''interface_size'', ''interface_points'',
                            ''interface_origin'', ''interface_uvw''}
           \<and> (\<forall>key. key \<notin> {''interface_type'', ''interface_size'', ''interface_points'',
                              ''interface_origin'', ''interface_uvw''}
                  \<longrightarrow> ?d key = default_edge_attributes a key)
           \<and> ?d ''interface_type'' = Some (PStr ''face_face'')
           \<and> ?d ''interface_size'' = Some (PFloat (area eng isec))
           \<and> ?d ''interface_points'' = Some (PList (map py_point (butlast ?c)))
           \<and> ?d ''interface_origin'' = Some (py_point og)
           \<and> ?d ''interface_uvw'' = Some (py_basis uvw)"
    by (intro conjI e bf nf ps pg isx ex refl dm keep interface_attr_fields)
  show ?thesis
    by (rule exI[of _ ?d], rule exI[of _ og], rule exI[of _ uvw], rule exI[of _ p0],
        rule exI[of _ rst1], rule exI[of _ p1], rule exI[of _ isec], rule exI[of _ cs],
        rule all)
qed

theorem interface_attribute_bundle_witness:
  "edge two_cubes_identified (0, 1) \<noteq> edge two_cubes (0, 1)
   \<and> (\<exists>d og uvw p0 rst1 p1 isec cs.
           edge two_cubes_identified (0, 1) = Some d
           \<and> base_face rect_engine two_cubes 0 og uvw p0 \<and> nbr_face two_cubes 1 og uvw rst1
           \<and> passes rect_engine (1/1000000) (1/10) p0 rst1 isec cs
           \<and> Polygon rect_engine rst1 = Inr p1 \<and> intersection rect_engine p0 p1 = Inr isec
           \<and> exterior_coords rect_engine isec = Inr cs
           \<and> d = default_edge_attributes two_cubes
                  ++ interface_attr (area rect_engine isec)
                       (global_coords_numpy og uvw (flatten_z cs)) og uvw
           \<and> dom d = dom (default_edge_attributes two_cubes)
                        \<union> {''interface_type'', ''interface_size'', ''interface_points'',
                            ''interface_origin'', ''interface_uvw''}
           \<and> (\<forall>key. key \<notin> {''interface_type'', ''interface_size'', ''interface_points'',
                              ''interface_origin'', ''interface_uvw''}
                  \<longrightarrow> d key = default_edge_attributes two_cubes key)
           \<and> d ''interface_type'' = Some (PStr ''face_face'')
           \<and> d ''interface_size'' = Some (PFloat (area rect_engine isec))
           \<and> d ''interface_points''
               = Some (PList (map py_point
                                (butlast (global_coords_numpy og uvw (flatten_z cs)))))
           \<and> d ''interface_origin'' = Some (py_point og)
           \<and> d ''interface_uvw'' = Some (py_basis uvw))
   \<and> (case edge two_cubes_identified (0, 1) of None \<Rightarrow> None | Some d \<Rightarrow> d ''interface_size'')
     = Some (PFloat 1)
   \<and> (case edge two_cubes_identified (0, 1) of None \<Rightarrow> None | Some d \<Rightarrow> d ''interface_points'')
     = Some (PList [PList [PFloat 0, PFloat 0, PFloat 1], PList [PFloat 1, PFloat 0, PFloat 1],
                    PList [PFloat 1, PFloat 1, PFloat 1], PList [PFloat 0, PFloat 1, PFloat 1]])
   \<and> (case edge two_cubes_identified (0, 1) of None \<Rightarrow> None | Some d \<Rightarrow> d ''interface_forces'')
     = Some PNone"
proof -
  have new: "edge two_cubes_identified (0, 1) \<noteq> edge two_cubes (0, 1)"
    using two_cubes_identified_edges by (auto simp: two_cubes_no_edges split: option.splits)
  note t = interface_attribute_bundle[OF two_cubes_identified_def new]
  show ?thesis
    by (intro conjI new t two_cubes_identified_edges[THEN conjunct1]
        two_cubes_identified_bundle[THEN conjunct2, THEN conjunct1]
        two_cubes_identified_bundle[THEN conjunct1])
qed

text \<open>
  C5, as the claim states it, fails. With the sliver cube under a unit cube, the frame
  accessor of the lower block fails for the zero-area face; with the skew cube under a
  unit cube, the frame of face 0 of the lower block is singular and the linear solve
  fails. In both runs the face is not skipped: the error ends the whole run, and the
  interface between the two blocks, which the top face of the lower block yields on the
  two plain cubes, is never identified.
\<close>

theorem degenerate_face_skipped_counterexample:
  "blocks sliver_stack 0 = Some sliver_cube
   \<and> frames sliver_cube = Inl GeometryError
   \<and> identify_interfaces rect_engine sliver_stack 10 (1/1000000) (1/10) (1/1000)
         True False False
       = Raised GeometryError sliver_stack
   \<and> edge sliver_stack (0, 1) = None
   \<and> blocks skew_stack 0 = Some skew_cube
   \<and> det3 ((0, 1, 0), (0, 1, 0), (0, 0, -1)) = 0
   \<and> identify_interfaces rect_engine skew_stack 10 (1/1000000) (1/10) (1/1000)
         True False False
       = Raised LinAlgError skew_stack
   \<and> edge skew_stack (0, 1) = None
   \<and> edge two_cubes_identified (0, 1) \<noteq> None"
proof -
  have f: "frames sliver_cube = Inl GeometryError" by (simp add: sliver_cube_def)
  have d: "det3 ((0, 1, 0), (0, 1, 0), (0, 0, -1)) = 0" by (simp add: det3_def)
  have e: "edge sliver_stack (0, 1) = None" "edge skew_stack (0, 1) = None"
    by (simp_all add: stack_blocks)
  have t: "edge two_cubes_identified (0, 1) \<noteq> None"
    using two_cubes_identified_edges by (auto split: option.splits)
  show ?thesis
    by (intro conjI stack_blocks(2,4) f sliver_stack_aborts d skew_stack_aborts e t)
qed

text \<open>
  C5, amended. A failing or singular frame is not skipped; nothing in
  \<open>identify_interfaces\<close> catches the error. The step of a base block whose frame
  accessor fails raises the accessor's error and leaves the assembly as it is, whatever
  \<open>face_face\<close> is; the step of a base face whose frame is singular raises the
  \<open>LinAlgError\<close> of the linear solve and leaves the assembly as it is; and a loop ends
  with the first error that one of its steps raises, whatever steps would follow. So a
  pass over an assembly with a block whose frame accessor fails, or (with \<open>face_face\<close>
  set) with a block that has a face with a singular frame, never returns normally: it
  ends with an exception, the remaining faces and blocks are not examined, and the
  assembly holds the edges added until then.
\<close>

theorem degenerate_frame_aborts:
  "(key_index k = Some i \<and> blocks s k = Some blk \<and> frames blk = Inl e \<longrightarrow>
      block_step eng tmax amin face_face key_index index_key nn k s = Raised e s)
   \<and> (face_coordinates blk f0 = Inr xyz0 \<and> det3 uvw = 0 \<longrightarrow>
        base_face_step eng tmax amin index_key k blk nbrs (f0, og, uvw) s
          = Raised LinAlgError s)
   \<and> (for_each step xs s0 = Done t \<and> step x t = Raised e t' \<longrightarrow>
        for_each step (xs @ x # ys) s0 = Raised e t')
   \<and> (k \<in> set (vertices a) \<and> blocks a k = Some blk
        \<and> (frames blk = Inl e
            \<or> face_face \<and> frames blk = Inr frs \<and> (f0, og, uvw) \<in> set frs \<and> det3 uvw = 0)
        \<longrightarrow> (\<exists>e' s'. identify_interfaces eng a nmax tmax amin lmin face_face face_edge
                          face_vertex = Raised e' s'
                      \<and> interfaces_added amin a s'))"
proof -
  let ?run = "identify_interfaces eng a nmax tmax amin lmin face_face face_edge face_vertex"
  let ?keys = "vertices a"
  let ?ik = "dict_of (zip [0..<length ?keys] ?keys)"
  have accessor: "key_index k = Some i \<and> blocks s k = Some blk \<and> frames blk = Inl e \<longrightarrow>
      block_step eng tmax amin face_face key_index index_key nn k s = Raised e s"
    by (simp add: block_step_def)
  have singular: "face_coordinates blk f0 = Inr xyz0 \<and> det3 uvw = 0 \<longrightarrow>
        base_face_step eng tmax amin index_key k blk nbrs (f0, og, uvw) s
          = Raised LinAlgError s"
    by (simp add: base_face_step_def local_coords_def solve_def det3_transpose3)
  have stops: "for_each step xs s0 = Done t \<and> step x t = Raised e t' \<longrightarrow>
        for_each step (xs @ x # ys) s0 = Raised e t'"
  proof
    assume "for_each step xs s0 = Done t \<and> step x t = Raised e t'"
    then have "for_each step xs s0 = Done t" and "step x t = Raised e t'" by simp_all
    then show "for_each step (xs @ x # ys) s0 = Raised e t'" by (rule for_each_stops)
  qed
  have pass: "k \<in> set (vertices a) \<and> blocks a k = Some blk
        \<and> (frames blk = Inl e
            \<or> face_face \<and> frames blk = Inr frs \<and> (f0, og, uvw) \<in> set frs \<and> det3 uvw = 0)
        \<longrightarrow> (\<exists>e' s'. ?run = Raised e' s' \<and> interfaces_added amin a s')"
  proof
    assume h: "k \<in> set (vertices a) \<and> blocks a k = Some blk
        \<and> (frames blk = Inl e
            \<or> face_face \<and> frames blk = Inr frs \<and> (f0, og, uvw) \<in> set frs \<and> det3 uvw = 0)"
    then have kv: "k \<in> set (vertices a)" and bk: "blocks a k = Some blk"
      and bad: "frames blk = Inl e
            \<or> face_face \<and> frames blk = Inr frs \<and> (f0, og, uvw) \<in> set frs \<and> det3 uvw = 0"
      by simp_all
    have iv: "\<And>j n. ?ik j = Some n \<Longrightarrow> n \<in> set (vertices a)"
      by (rule index_key_vertices)
    have step_raises: "\<exists>e' t'. block_step eng tmax amin face_face key_index ?ik nn k t
        = Raised e' t'"
      if bt: "blocks t k = Some blk" for key_index nn t
      using bad
    proof
      assume "frames blk = Inl e"
      then show ?thesis using bt by (simp add: block_step_def split: option.split)
    next
      assume "face_face \<and> frames blk = Inr frs \<and> (f0, og, uvw) \<in> set frs \<and> det3 uvw = 0"
      then have ff: face_face
        and fr: "frames blk = Inr frs \<and> (f0, og, uvw) \<in> set frs \<and> det3 uvw = 0"
        by simp_all
      from fr have
        "\<exists>frs f0 og uvw. frames blk = Inr frs \<and> (f0, og, uvw) \<in> set frs \<and> det3 uvw = 0"
        by (intro exI)
      then have "(\<exists>e. frames blk = Inl e)
         \<or> (\<exists>frs f0 og uvw. frames blk = Inr frs \<and> (f0, og, uvw) \<in> set frs \<and> det3 uvw = 0)"
        by (rule disjI2)
      with ff bt show ?thesis by (rule block_step_degenerate)
    qed
    have loop: "\<exists>e' t'. for_each (block_step eng tmax amin face_face key_index ?ik nn) ?keys a
        = Raised e' t'" for key_index nn
    proof (rule for_each_raises[where P = "interfaces_added amin a", OF kv])
      show "interfaces_added amin a a" by (rule interfaces_added_refl)
    next
      fix y t
      assume yv: "y \<in> set ?keys" and G: "interfaces_added amin a t"
      show "interfaces_added amin a
          (final (block_step eng tmax amin face_face key_index ?ik nn y t))"
        by (rule block_step_added[OF G yv iv])
    next
      fix t
      assume "interfaces_added amin a t"
      then have "blocks t k = Some blk"
        using interfaces_added_fields(2)[of amin a t] bk by simp
      then show "\<exists>e' t'. block_step eng tmax amin face_face key_index ?ik nn k t
          = Raised e' t'"
        by (rule step_raises)
    qed
    have raised: "\<exists>e' s'. ?run = Raised e' s'"
      unfolding identify_interfaces_def Let_def using loop
      by (simp split: sum.split)
    then obtain e' s' where r: "?run = Raised e' s'" by (elim exE)
    have "interfaces_added amin a (final ?run)" by (rule identify_interfaces_added)
    with r have "interfaces_added amin a s'" by simp
    with r have "?run = Raised e' s' \<and> interfaces_added amin a s'" by (rule conjI)
    then show "\<exists>e' s'. ?run = Raised e' s' \<and> interfaces_added amin a s'" by (intro exI)
  qed
  show ?thesis by (intro conjI accessor singular stops pass)
qed

theorem degenerate_frame_aborts_witness:
  "blocks sliver_stack 0 = Some sliver_cube
   \<and> frames sliver_cube = Inl GeometryError
   \<and> block_step rect_engine (1/1000000) (1/10) False [0 \<mapsto> 0, 1 \<mapsto> 1] [0 \<mapsto> 0, 1 \<mapsto> 1]
        [([0, 1], [0, 1]), ([0, 1], [1, 0])] 0 sliver_stack
      = Raised GeometryError sliver_stack
   \<and> face_coordinates skew_cube 0 = Inr [(0, 0, 0), (0, 1, 0), (1, 1, 0), (1, 0, 0)]
   \<and> det3 ((0, 1, 0), (0, 1, 0), (0, 0, -1)) = 0
   \<and> base_face_step rect_engine (1/1000000) (1/10) [0 \<mapsto> 0, 1 \<mapsto> 1] 0 skew_cube [0, 1]
        (0, (1/2, 1/2, 0), ((0, 1, 0), (0, 1, 0), (0, 0, -1))) skew_stack
      = Raised LinAlgError skew_stack
   \<and> for_each (block_step rect_engine (1/1000000) (1/10) False [0 \<mapsto> 0, 1 \<mapsto> 1]
                 [0 \<mapsto> 0, 1 \<mapsto> 1] [([0, 1], [0, 1]), ([0, 1], [1, 0])]) [] sliver_stack
      = Done sliver_stack
   \<and> for_each (block_step rect_engine (1/1000000) (1/10) False [0 \<mapsto> 0, 1 \<mapsto> 1]
                 [0 \<mapsto> 0, 1 \<mapsto> 1] [([0, 1], [0, 1]), ([0, 1], [1, 0])]) [0, 1] sliver_stack
      = Raised GeometryError sliver_stack
   \<and> vertices sliver_stack = [0, 1]
   \<and> (\<exists>e' s'. identify_interfaces rect_engine sliver_stack 10 (1/1000000) (1/10) (1/1000)
                   False False False = Raised e' s'
                \<and> interfaces_added (1/10) sliver_stack s')
   \<and> vertices skew_stack = [0, 1]
   \<and> blocks skew_stack 0 = Some skew_cube
   \<and> frames skew_cube = Inr (projr (frames skew_cube))
   \<and> (0, (1/2, 1/2, 0), ((0, 1, 0), (0, 1, 0), (0, 0, -1))) \<in> set (projr (frames skew_cube))
   \<and> (\<exists>e' s'. identify_interfaces rect_engine skew_stack 10 (1/1000000) (1/10) (1/1000)
                   True False False = Raised e' s'
                \<and> interfaces_added (1/10) skew_stack s')
   \<and> identify_interfaces rect_engine sliver_stack 10 (1/1000000) (1/10) (1/1000)
         True False False
       = Raised GeometryError sliver_stack
   \<and> identify_interfaces rect_engine skew_stack 10 (1/1000000) (1/10) (1/1000)
         True False False
       = Raised LinAlgError skew_stack"
proof -
  let ?ki = "[0 \<mapsto> 0, 1 \<mapsto> 1] :: int \<rightharpoonup> nat"
  let ?ik = "[0 \<mapsto> 0, 1 \<mapsto> 1] :: nat \<rightharpoonup> int"
  let ?nn = "[([0, 1], [0, 1]), ([0, 1], [1, 0])] :: (real list \<times> nat list) list"
  let ?uvw = "((0, 1, 0), (0, 1, 0), (0, 0, -1)) :: basis"
  let ?step = "block_step rect_engine (1/1000000) (1/10) False ?ki ?ik ?nn"
  have f: "frames sliver_cube = Inl GeometryError" by (simp add: sliver_cube_def)
  have h1: "?ki 0 = Some 0 \<and> blocks sliver_stack 0 = Some sliver_cube
      \<and> frames sliver_cube = Inl GeometryError"
    by (intro conjI stack_blocks(2) f) simp
  note t1 = degenerate_frame_aborts[where key_index = ?ki and k = 0 and i = 0
      and s = sliver_stack and blk = sliver_cube and e = GeometryError and eng = rect_engine
      and tmax = "1/1000000" and amin = "1/10" and face_face = False and index_key = ?ik
      and nn = ?nn, THEN conjunct1, THEN mp, OF h1]
  have fc: "face_coordinates skew_cube 0 = Inr [(0, 0, 0), (0, 1, 0), (1, 1, 0), (1, 0, 0)]"
    by (simp add: skew_cube_def cube_def face_coordinates_def face_vertices_def
        vertex_coordinates_b_def getitem_def dict_of_def)
  have d: "det3 ?uvw = 0" by (simp add: det3_def)
  have h2: "face_coordinates skew_cube 0 = Inr [(0, 0, 0), (0, 1, 0), (1, 1, 0), (1, 0, 0)]
      \<and> det3 ?uvw = 0"
    by (intro conjI fc d)
  note t2 = degenerate_frame_aborts[where blk = skew_cube and ?f0.0 = 0 and uvw = ?uvw
      and ?xyz0.0 = "[(0, 0, 0), (0, 1, 0), (1, 1, 0), (1, 0, 0)]" and eng = rect_engine
      and tmax = "1/1000000" and amin = "1/10" and index_key = ?ik and k = 0
      and nbrs = "[0, 1]" and og = "(1/2, 1/2, 0)" and s = skew_stack,
      THEN conjunct2, THEN conjunct1, THEN mp, OF h2]
  have l0: "for_each ?step [] sliver_stack = Done sliver_stack" by simp
  have h3: "for_each ?step [] sliver_stack = Done sliver_stack
      \<and> ?step 0 sliver_stack = Raised GeometryError sliver_stack"
    by (intro conjI l0 t1)
  have "for_each ?step ([] @ 0 # [1]) sliver_stack = Raised GeometryError sliver_stack"
    by (rule degenerate_frame_aborts[where step = ?step and xs = "[]" and ?s0.0 = sliver_stack
          and t = sliver_stack and x = 0 and e = GeometryError and t' = sliver_stack
          and ys = "[1]", THEN conjunct2, THEN conjunct2, THEN conjunct1, THEN mp, OF h3])
  then have t3: "for_each ?step [0, 1] sliver_stack = Raised GeometryError sliver_stack"
    by simp
  have v1: "0 \<in> set (vertices sliver_stack)" by (simp add: stack_blocks)
  have h4: "0 \<in> set (vertices sliver_stack) \<and> blocks sliver_stack 0 = Some sliver_cube
        \<and> (frames sliver_cube = Inl GeometryError
            \<or> False \<and> frames sliver_cube = Inr [] \<and> (0, (0, 0, 0), ?uvw) \<in> set [] \<and> det3 ?uvw = 0)"
    by (intro conjI v1 stack_blocks(2) disjI1 f)
  note t4 = degenerate_frame_aborts[where k = 0 and a = sliver_stack and blk = sliver_cube
      and e = GeometryError and face_face = False and frs = "[]" and ?f0.0 = 0
      and og = "(0, 0, 0)" and uvw = ?uvw and eng = rect_engine and nmax = 10
      and tmax = "1/1000000" and amin = "1/10" and lmin = "1/1000" and face_edge = False
      and face_vertex = False,
      THEN conjunct2, THEN conjunct2, THEN conjunct2, THEN mp, OF h4]
  have fr: "frames skew_cube = Inr (projr (frames skew_cube))"
    by (simp add: skew_cube_def cube_def)
  have mem: "(0, (1/2, 1/2, 0), ?uvw) \<in> set (projr (frames skew_cube))"
    by (simp add: skew_cube_def cube_def)
  have v2: "0 \<in> set (vertices skew_stack)" by (simp add: stack_blocks)
  have h5: "0 \<in> set (vertices skew_stack) \<and> blocks skew_stack 0 = Some skew_cube
        \<and> (frames skew_cube = Inl GeometryError
            \<or> True \<and> frames skew_cube = Inr (projr (frames skew_cube))
                \<and> (0, (1/2, 1/2, 0), ?uvw) \<in> set (projr (frames skew_cube)) \<and> det3 ?uvw = 0)"
    by (intro conjI v2 stack_blocks(4) disjI2 TrueI fr mem d)
  note t5 = degenerate_frame_aborts[where k = 0 and a = skew_stack and blk = skew_cube
      and e = GeometryError and face_face = True and frs = "projr (frames skew_cube)"
      and ?f0.0 = 0 and og = "(1/2, 1/2, 0)" and uvw = ?uvw and eng = rect_engine
      and nmax = 10 and tmax = "1/1000000" and amin = "1/10" and lmin = "1/1000"
      and face_edge = False and face_vertex = False,
      THEN conjunct2, THEN conjunct2, THEN conjunct2, THEN mp, OF h5]
  show ?thesis
    by (intro conjI stack_blocks(1,2,3,4) f t1 fc d t2 l0 t3 t4 fr mem t5
        sliver_stack_aborts skew_stack_aborts)
qed

text \<open>
  C6, as the claim states it, fails: with a negative \<open>amin\<close> and a negative \<open>lmin\<close>
  the pass over the two stacked cubes raises nothing and adds the interface between them,
  and with a negative \<open>tmax\<close> as well it ends normally, too.
\<close>

theorem configuration_error_counterexample:
  "(case identify_interfaces rect_engine two_cubes 10 (1/1000000) (-1) (-1) True False False of
      Done s \<Rightarrow> (case edge s (0, 1) of None \<Rightarrow> None | Some d \<Rightarrow> d ''interface_size'')
    | Raised e s \<Rightarrow> None) = Some (PFloat 1)
   \<and> edge two_cubes (0, 1) = None
   \<and> identify_interfaces rect_engine two_cubes 10 (-1) (-1) (-1) True False False
       = Done two_cubes"
proof -
  have e: "edge two_cubes (0, 1) = None" by (simp add: two_cubes_no_edges)
  show ?thesis by (intro conjI two_cubes_negative_amin e two_cubes_negative_tmax)
qed

text \<open>
  C6, amended. \<open>identify_interfaces\<close> does not validate its configuration and raises
  no configuration error of its own. \<open>lmin\<close>, like \<open>face_edge\<close> and
  \<open>face_vertex\<close>, is never read, so the result is the same for every value of it.
  \<open>nmax\<close> is clamped to the number of blocks and handed to the spatial index as it
  is: if building the index or one of its queries fails, the run ends with that error
  before any block is processed, and the assembly is unchanged. \<open>tmax\<close> and
  \<open>amin\<close> enter the comparisons as given. With a negative \<open>tmax\<close> every neighbour
  face that has a vertex is rejected as non-coplanar, so that a pass over blocks whose
  faces all have a vertex leaves the assembly unchanged. With a negative \<open>amin\<close> the
  area threshold admits every intersection of non-negative area that a neighbour face
  with a polygon of non-zero area intersecting the base polygon yields; where this
  intersection has an exterior ring, its edge is inserted.
\<close>

theorem configuration_not_validated:
  "identify_interfaces eng a nmax tmax amin lmin face_face face_edge face_vertex
     = identify_interfaces eng a nmax tmax amin lmin' face_face face_edge' face_vertex'
   \<and> (map_or_raise (getitem (blocks a)) (vertices a) = Inr blks
        \<and> map_or_raise (vertex_coordinates a) (vertices a) = Inr cloud
        \<and> find_nearest_neighbours eng cloud (min nmax (int (length blks))) = Inl e
        \<longrightarrow> identify_interfaces eng a nmax tmax amin lmin face_face face_edge face_vertex
            = Raised e a)
   \<and> (tmax < 0 \<and> map_or_raise (getitem rst) (snd f1) = Inr rst1 \<and> rst1 \<noteq> []
        \<longrightarrow> face_step eng tmax amin k og uvw p0 n rst f1 s = Done s)
   \<and> (tmax < 0 \<and> faces_have_vertices a
        \<longrightarrow> final (identify_interfaces eng a nmax tmax amin lmin face_face face_edge
                     face_vertex) = a)
   \<and> (amin < 0 \<and> Polygon eng rst1 = Inr p1 \<and> area eng p1 \<noteq> 0
        \<and> intersects eng p0 p1 = Inr True \<and> intersection eng p0 p1 = Inr isec
        \<and> 0 \<le> area eng isec \<and> exterior_coords eng isec = Inr cs
        \<longrightarrow> polygon_step eng amin k og uvw p0 n rst1 s
            = Done (add_edge s k n
                      (interface_attr (area eng isec)
                         (global_coords_numpy og uvw (flatten_z cs)) og uvw)))"
proof -
  let ?r = "final (identify_interfaces eng a nmax tmax amin lmin face_face face_edge
                     face_vertex)"
  have unread: "identify_interfaces eng a nmax tmax amin lmin face_face face_edge face_vertex
     = identify_interfaces eng a nmax tmax amin lmin' face_face face_edge' face_vertex'"
    by (simp add: identify_interfaces_def)
  have index: "map_or_raise (getitem (blocks a)) (vertices a) = Inr blks
        \<and> map_or_raise (vertex_coordinates a) (vertices a) = Inr cloud
        \<and> find_nearest_neighbours eng cloud (min nmax (int (length blks))) = Inl e
        \<longrightarrow> identify_interfaces eng a nmax tmax amin lmin face_face face_edge face_vertex
            = Raised e a"
    by (simp add: identify_interfaces_def Let_def)
  have neg_tmax: "tmax < 0 \<and> map_or_raise (getitem rst) (snd f1) = Inr rst1 \<and> rst1 \<noteq> []
        \<longrightarrow> face_step eng tmax amin k og uvw p0 n rst f1 s = Done s"
  proof
    assume h: "tmax < 0 \<and> map_or_raise (getitem rst) (snd f1) = Inr rst1 \<and> rst1 \<noteq> []"
    then obtain p where p: "p \<in> set rst1" by (cases rst1) auto
    have "0 \<le> \<bar>snd (snd p)\<bar>" by simp
    with h have "tmax < \<bar>snd (snd p)\<bar>" by linarith
    with p have "\<exists>p\<in>set rst1. tmax < \<bar>snd (snd p)\<bar>" by (rule bexI[rotated])
    then show "face_step eng tmax amin k og uvw p0 n rst f1 s = Done s"
      using h by (simp add: face_step_def list_ex_off_plane)
  qed
  have neg_pass: "tmax < 0 \<and> faces_have_vertices a \<longrightarrow> ?r = a"
  proof
    assume h: "tmax < 0 \<and> faces_have_vertices a"
    then have neg: "tmax < 0" and fv: "faces_have_vertices a" by simp_all
    have T: "interfaces_traced eng tmax amin a ?r" by (rule identify_interfaces_traced)
    have G: "interfaces_added amin a ?r" by (rule identify_interfaces_added)
    have same: "edge ?r (i, j) = edge a (i, j)" for i j
    proof (rule ccontr)
      assume new: "edge ?r (i, j) \<noteq> edge a (i, j)"
      from T have "edge ?r (i, j) = edge a (i, j) \<or>
          (\<exists>og uvw p0 rst1 isec cs.
             base_face eng a i og uvw p0 \<and> nbr_face a j og uvw rst1
             \<and> passes eng tmax amin p0 rst1 isec cs
             \<and> edge ?r (i, j) =
                 Some (default_edge_attributes a
                         ++ interface_attr (area eng isec)
                              (global_coords_numpy og uvw (flatten_z cs)) og uvw))"
        unfolding interfaces_traced_def by (elim allE)
      with new obtain og' uvw' q0 rst' isec' cs' where
        nf: "nbr_face a j og' uvw' rst'" and ps: "passes eng tmax amin q0 rst' isec' cs'"
        by (elim disjE exE conjE) simp_all
      have cp: "\<forall>p\<in>set rst'. \<bar>snd (snd p)\<bar> \<le> tmax"
        using ps unfolding passes_def by (elim conjE)
      have empty: "rst' = []"
      proof (cases rst')
        case Nil
        then show ?thesis .
      next
        case (Cons p ps)
        then have "p \<in> set rst'" by simp
        with cp have "\<bar>snd (snd p)\<bar> \<le> tmax" by (rule bspec)
        with neg show ?thesis by simp
      qed
      from nf obtain nbr rstl f1 where nb: "blocks a j = Some nbr"
        and f1: "f1 \<in> set (face_loops nbr)"
        and m: "map_or_raise (getitem (dict_of (zip (map fst (vertex_xyz nbr)) rstl))) (snd f1)
                  = Inr rst'"
        unfolding nbr_face_def by (elim exE conjE)
      have "length rst' = length (snd f1)" by (rule map_or_raise_length[OF m])
      with empty have "snd f1 = []" by simp
      moreover have "snd f1 \<noteq> []"
        using fv nb f1 unfolding faces_have_vertices_def by (elim allE[of _ j] allE[of _ nbr] allE[of _ f1]) simp
      ultimately show False by (rule notE[rotated])
    qed
    have ee: "edge ?r = edge a"
    proof
      fix q
      show "edge ?r q = edge a q" by (cases q) (simp add: same)
    qed
    have eq: "?r = a\<lparr>edge := edge ?r\<rparr>"
      using G unfolding interfaces_added_def by (rule conjunct1)
    have "a\<lparr>edge := edge ?r\<rparr> = a" unfolding ee by simp
    with eq show "?r = a" by (rule trans)
  qed
  have neg_amin: "amin < 0 \<and> Polygon eng rst1 = Inr p1 \<and> area eng p1 \<noteq> 0
        \<and> intersects eng p0 p1 = Inr True \<and> intersection eng p0 p1 = Inr isec
        \<and> 0 \<le> area eng isec \<and> exterior_coords eng isec = Inr cs
        \<longrightarrow> polygon_step eng amin k og uvw p0 n rst1 s
            = Done (add_edge s k n
                      (interface_attr (area eng isec)
                         (global_coords_numpy og uvw (flatten_z cs)) og uvw))"
    by (simp add: polygon_step_def)
  show ?thesis by (intro conjI unread index neg_tmax neg_pass neg_amin)
qed

theorem configuration_not_validated_witness:
  "identify_interfaces rect_engine two_cubes 10 (1/1000000) (-1) (-1) True False False
     = identify_interfaces rect_engine two_cubes 10 (1/1000000) (-1) (1/1000) True False False
   \<and> map_or_raise (getitem (blocks two_cubes)) (vertices two_cubes)
       = Inr [cube (0, 0, 0), cube (0, 0, 1)]
   \<and> map_or_raise (vertex_coordinates two_cubes) (vertices two_cubes)
       = Inr [[PFloat (1/2), PFloat (1/2), PFloat (1/2)],
              [PFloat (1/2), PFloat (1/2), PFloat (3/2)]]
   \<and> find_nearest_neighbours rect_engine
       [[PFloat (1/2), PFloat (1/2), PFloat (1/2)], [PFloat (1/2), PFloat (1/2), PFloat (3/2)]]
       (min 0 (int (length [cube (0, 0, 0), cube (0, 0, 1)]))) = Inl ValueError
   \<and> identify_interfaces rect_engine two_cubes 0 (1/1000000) (1/10) (1/1000) True False False
       = Raised ValueError two_cubes
   \<and> map_or_raise (getitem ([0 \<mapsto> (-1/2, -1/2, 0), 1 \<mapsto> (1/2, -1/2, 0),
        2 \<mapsto> (1/2, 1/2, 0), 3 \<mapsto> (-1/2, 1/2, 0)] :: int \<rightharpoonup> point)) [0, 1, 2, 3]
       = Inr unit_square
   \<and> face_step rect_engine (-1) (1/10) 0 (1/2, 1/2, 1) ((1, 0, 0), (0, 1, 0), (0, 0, 1))
        (Poly (unit_square @ [(-1/2, -1/2, 0)])) 1
        [0 \<mapsto> (-1/2, -1/2, 0), 1 \<mapsto> (1/2, -1/2, 0), 2 \<mapsto> (1/2, 1/2, 0), 3 \<mapsto> (-1/2, 1/2, 0)]
        (0, [0, 1, 2, 3]) two_cubes = Done two_cubes
   \<and> faces_have_vertices two_cubes
   \<and> final (identify_interfaces rect_engine two_cubes 10 (-1) (1/10) (1/1000)
               True False False) = two_cubes
   \<and> Polygon rect_engine unit_square = Inr (Poly (unit_square @ [(-1/2, -1/2, 0)]))
   \<and> area rect_engine (Poly (unit_square @ [(-1/2, -1/2, 0)])) = 1
   \<and> intersects rect_engine (Poly (unit_square @ [(-1/2, -1/2, 0)]))
       (Poly (unit_square @ [(-1/2, -1/2, 0)])) = Inr True
   \<and> intersection rect_engine (Poly (unit_square @ [(-1/2, -1/2, 0)]))
       (Poly (unit_square @ [(-1/2, -1/2, 0)])) = Inr (Poly (unit_square @ [(-1/2, -1/2, 0)]))
   \<and> exterior_coords rect_engine (Poly (unit_square @ [(-1/2, -1/2, 0)]))
       = Inr (unit_square @ [(-1/2, -1/2, 0)])
   \<and> polygon_step rect_engine (-1) 0 (1/2, 1/2, 1) ((1, 0, 0), (0, 1, 0), (0, 0, 1))
        (Poly (unit_square @ [(-1/2, -1/2, 0)])) 1 unit_square two_cubes
      = Done (add_edge two_cubes 0 1
                (interface_attr (area rect_engine (Poly (unit_square @ [(-1/2, -1/2, 0)])))
                   (global_coords_numpy (1/2, 1/2, 1) ((1, 0, 0), (0, 1, 0), (0, 0, 1))
                      (flatten_z (unit_square @ [(-1/2, -1/2, 0)])))
                   (1/2, 1/2, 1) ((1, 0, 0), (0, 1, 0), (0, 0, 1))))"
proof -
  let ?rst = "[0 \<mapsto> (-1/2, -1/2, 0), 1 \<mapsto> (1/2, -1/2, 0),
        2 \<mapsto> (1/2, 1/2, 0), 3 \<mapsto> (-1/2, 1/2, 0)] :: int \<rightharpoonup> point"
  let ?P = "Poly (unit_square @ [(-1/2, -1/2, 0)])"
  let ?cloud = "[[PFloat (1/2), PFloat (1/2), PFloat (1/2)],
                 [PFloat (1/2), PFloat (1/2), PFloat (3/2)]]"
  note t = configuration_not_validated[where eng = rect_engine and a = two_cubes and nmax = 10
      and tmax = "1/1000000" and amin = "-1" and lmin = "-1" and lmin' = "1/1000"
      and face_face = True and face_edge = False and face_edge' = False
      and face_vertex = False and face_vertex' = False
      and ?rst1.0 = unit_square and k = 0 and og = "(1/2, 1/2, 1)"
      and uvw = "((1, 0, 0), (0, 1, 0), (0, 0, 1))" and ?p0.0 = ?P and n = 1 and s = two_cubes
      and ?p1.0 = ?P and isec = ?P and cs = "unit_square @ [(-1/2, -1/2, 0)]"]
  note t' = configuration_not_validated[where eng = rect_engine and tmax = "-1"
      and amin = "1/10" and rst = ?rst and ?f1.0 = "(0, [0, 1, 2, 3])"
      and ?rst1.0 = unit_square and k = 0 and og = "(1/2, 1/2, 1)"
      and uvw = "((1, 0, 0), (0, 1, 0), (0, 0, 1))" and ?p0.0 = ?P and n = 1 and s = two_cubes
      and a = two_cubes and nmax = 10 and lmin = "1/1000" and face_face = True
      and face_edge = False and face_vertex = False]
  have h0: "map_or_raise (getitem (blocks two_cubes)) (vertices two_cubes)
          = Inr [cube (0, 0, 0), cube (0, 0, 1)]
        \<and> map_or_raise (vertex_coordinates two_cubes) (vertices two_cubes) = Inr ?cloud
        \<and> find_nearest_neighbours rect_engine ?cloud
            (min 0 (int (length [cube (0, 0, 0), cube (0, 0, 1)]))) = Inl ValueError"
    by (intro conjI two_cubes_set_up)
  note t0 = configuration_not_validated[where eng = rect_engine and a = two_cubes and nmax = 0
      and tmax = "1/1000000" and amin = "1/10" and lmin = "1/1000" and face_face = True
      and face_edge = False and face_vertex = False
      and blks = "[cube (0, 0, 0), cube (0, 0, 1)]" and cloud = ?cloud and e = ValueError,
      THEN conjunct2, THEN conjunct1, THEN mp, OF h0]
  have l: "map_or_raise (getitem ?rst) [0, 1, 2, 3] = Inr unit_square"
    by (simp add: getitem_def unit_square_def)
  have h1: "(-1 :: real) < 0 \<and> map_or_raise (getitem ?rst) (snd (0 :: int, [0, 1, 2, 3 :: int]))
      = Inr unit_square \<and> unit_square \<noteq> []"
    using l by (simp add: unit_square_def)
  have h3: "(-1 :: real) < 0 \<and> faces_have_vertices two_cubes"
    by (intro conjI two_cubes_faces) simp
  have nz: "area rect_engine ?P \<noteq> 0" and nn: "0 \<le> area rect_engine ?P"
    using unit_square_engine(2) by simp_all
  have h2: "(-1 :: real) < 0 \<and> Polygon rect_engine unit_square = Inr ?P
        \<and> area rect_engine ?P \<noteq> 0
        \<and> intersects rect_engine ?P ?P = Inr True \<and> intersection rect_engine ?P ?P = Inr ?P
        \<and> 0 \<le> area rect_engine ?P
        \<and> exterior_coords rect_engine ?P = Inr (unit_square @ [(-1/2, -1/2, 0)])"
    by (intro conjI nz nn unit_square_engine(1,3,4,5)) simp
  show ?thesis
    by (intro conjI t[THEN conjunct1] two_cubes_set_up t0 l
        t'[THEN conjunct2, THEN conjunct2, THEN conjunct1, THEN mp, OF h1]
        two_cubes_faces
        t'[THEN conjunct2, THEN conjunct2, THEN conjunct2, THEN conjunct1, THEN mp, OF h3]
        unit_square_engine
        t[THEN conjunct2, THEN conjunct2, THEN conjunct2, THEN conjunct2, THEN mp, OF h2])
qed

text \<open>
  C7. Identification is idempotent: when a pass over an assembly ends normally, a second
  pass over its result ends normally with the same assembly, so the edge set with its
  attribute bundles is the one of the first pass. This holds for every assembly, in
  particular for one with no edges before the first pass.
\<close>

theorem identification_idempotent:
  assumes "identify_interfaces eng a nmax tmax amin lmin face_face face_edge face_vertex
             = Done s'"
  shows "identify_interfaces eng s' nmax tmax amin lmin face_face face_edge face_vertex
           = Done s'"
proof -
  let ?keys = "vertices a"
  let ?ki = "dict_of (zip ?keys [0..<length ?keys])"
  let ?ik = "dict_of (zip [0..<length ?keys] ?keys)"
  have "interfaces_added amin a
      (final (identify_interfaces eng a nmax tmax amin lmin face_face face_edge face_vertex))"
    by (rule identify_interfaces_added)
  then have cov: "covers a s'" using assms by (simp add: interfaces_added_covers)
  have vs: "vertices s' = vertices a" and bs: "blocks s' = blocks a"
    and vx: "vertex s' = vertex a"
    using covers_fields[OF cov] by simp_all
  have vc: "vertex_coordinates s' = vertex_coordinates a"
    by (rule vertex_coordinates_cong[OF vx])
  from assms obtain blks cloud nn where
    b: "map_or_raise (getitem (blocks a)) ?keys = Inr blks"
    and c: "map_or_raise (vertex_coordinates a) ?keys = Inr cloud"
    and q: "find_nearest_neighbours eng cloud (min nmax (int (length blks))) = Inr nn"
    and loop: "for_each (block_step eng tmax amin face_face ?ki ?ik nn) ?keys a = Done s'"
    unfolding identify_interfaces_def Let_def
    by (auto split: sum.splits)
  have iv: "\<And>j n. ?ik j = Some n \<Longrightarrow> n \<in> set (vertices a)"
    by (rule index_key_vertices)
  have "for_each (block_step eng tmax amin face_face ?ki ?ik nn) ?keys s' = Done s'"
    by (rule block_loop_stable[OF loop covers_refl subset_refl iv])
  then show ?thesis
    unfolding identify_interfaces_def Let_def vs bs vc using b c q by simp
qed

theorem identification_idempotent_witness:
  "edge two_cubes = Map.empty
   \<and> identify_interfaces rect_engine two_cubes 10 (1/1000000) (1/10) (1/1000) True False False
       = Done two_cubes_identified
   \<and> identify_interfaces rect_engine two_cubes_identified 10 (1/1000000) (1/10) (1/1000)
         True False False
       = Done two_cubes_identified"
proof -
  let ?run = "identify_interfaces rect_engine two_cubes 10 (1/1000000) (1/10) (1/1000)
      True False False"
  have d: "(case ?run of Done s \<Rightarrow> True | Raised e s \<Rightarrow> False)"
    by (simp add: model_defs)
  have first: "?run = Done two_cubes_identified"
    unfolding two_cubes_identified_def using d by (cases ?run) simp_all
  note second = identification_idempotent[OF first]
  show ?thesis by (intro conjI two_cubes_no_edges first second)
qed

text \<open>
  C8. Round trip of the projections, in exact arithmetic: for a face whose frame is
  non-singular, the projection of any points into the local frame succeeds, mapping the
  local points back gives the points again, and for points coplanar with the face (third
  local coordinate zero) so does the inverse projection of the 2D points, as
  \<open>identify_interfaces\<close> applies it with the third coordinate set to zero.
\<close>

theorem projection_round_trip:
  assumes "det3 uvw \<noteq> 0"
  shows "\<exists>rst. local_coords og uvw pts = Inr rst
           \<and> global_coords_numpy og uvw rst = pts
           \<and> ((\<forall>p\<in>set rst. snd (snd p) = 0)
                \<longrightarrow> global_coords_numpy og uvw (flatten_z rst) = pts)"
proof -
  obtain rst where l: "local_coords og uvw pts = Inr rst"
    using local_coords_nonsingular[OF assms] by blast
  have rt: "global_coords_numpy og uvw rst = pts"
    by (rule global_local[OF assms l])
  have "(\<forall>p\<in>set rst. snd (snd p) = 0) \<longrightarrow> global_coords_numpy og uvw (flatten_z rst) = pts"
    using rt by (simp add: flatten_z_coplanar)
  with l rt show ?thesis by blast
qed

theorem projection_round_trip_witness:
  "det3 ((1, 0, 0), (0, 1, 0), (0, 0, 1)) \<noteq> 0
   \<and> local_coords (1/2, 1/2, 1) ((1, 0, 0), (0, 1, 0), (0, 0, 1))
        [(0, 0, 1), (1, 0, 1), (1, 1, 1), (0, 1, 1)]
      = Inr [(-1/2, -1/2, 0), (1/2, -1/2, 0), (1/2, 1/2, 0), (-1/2, 1/2, 0)]
   \<and> global_coords_numpy (1/2, 1/2, 1) ((1, 0, 0), (0, 1, 0), (0, 0, 1))
        (flatten_z [(-1/2, -1/2, 0), (1/2, -1/2, 0), (1/2, 1/2, 0), (-1/2, 1/2, 0)])
      = [(0, 0, 1), (1, 0, 1), (1, 1, 1), (0, 1, 1)]"
proof -
  let ?uvw = "((1, 0, 0), (0, 1, 0), (0, 0, 1)) :: basis"
  let ?og = "(1/2, 1/2, 1) :: point"
  let ?pts = "[(0, 0, 1), (1, 0, 1), (1, 1, 1), (0, 1, 1)] :: point list"
  let ?rst = "[(-1/2, -1/2, 0), (1/2, -1/2, 0), (1/2, 1/2, 0), (-1/2, 1/2, 0)] :: point list"
  have d: "det3 ?uvw \<noteq> 0" by (simp add: det3_def)
  have l: "local_coords ?og ?uvw ?pts = Inr ?rst"
    by (simp add: local_coords_def solve_def det3_def transpose3_def vsub_def)
  have flat: "\<forall>p\<in>set ?rst. snd (snd p) = 0" by simp
  obtain rst where r: "local_coords ?og ?uvw ?pts = Inr rst"
    and rt: "(\<forall>p\<in>set rst. snd (snd p) = 0)
                \<longrightarrow> global_coords_numpy ?og ?uvw (flatten_z rst) = ?pts"
    using projection_round_trip[OF d, of ?og ?pts] by blast
  from r l have "rst = ?rst" by simp
  with rt flat have "global_coords_numpy ?og ?uvw (flatten_z ?rst) = ?pts" by blast
  with d l show ?thesis by (intro conjI)
qed

text \<open>
  C9. \<open>identify_interfaces\<close> never creates an edge from a block to itself: a candidate
  equal to the base block is skipped, whatever the nearest-neighbour query returns, and
  after the pass the entry of every pair \<open>(k, k)\<close> is what it was before, so no
  self-loop appears.
\<close>

theorem self_loops_never_created:
  "(index_key j = Some k \<longrightarrow> nbr_step eng tmax amin index_key k og uvw p0 j s = Done s)
   \<and> edge (final (identify_interfaces eng a nmax tmax amin lmin face_face face_edge face_vertex))
        (k, k) = edge a (k, k)"
proof
  show "index_key j = Some k \<longrightarrow> nbr_step eng tmax amin index_key k og uvw p0 j s = Done s"
    by (simp add: nbr_step_def)
next
  have "interfaces_added amin a
     (final (identify_interfaces eng a nmax tmax amin lmin face_face face_edge face_vertex))"
    by (rule identify_interfaces_added)
  then show "edge (final (identify_interfaces eng a nmax tmax amin lmin face_face face_edge
      face_vertex)) (k, k) = edge a (k, k)"
    unfolding interfaces_added_def by blast
qed

theorem self_loops_never_created_witness:
  "find_nearest_neighbours rect_engine
      [[PFloat (1/2), PFloat (1/2), PFloat (1/2)], [PFloat (1/2), PFloat (1/2), PFloat (3/2)]] 2
     = Inr [([0, 1], [0, 1]), ([0, 1], [1, 0])]
   \<and> dict_of (zip [0..<2] [0, 1 :: int]) 0 = Some 0
   \<and> nbr_step rect_engine (1/1000000) (1/10) (dict_of (zip [0..<2] [0, 1])) 0
        (0, 0, 0) ((1, 0, 0), (0, 1, 0), (0, 0, 1)) NoPoly 0 two_cubes = Done two_cubes
   \<and> edge (final (identify_interfaces rect_engine two_cubes 10 (1/1000000) (1/10) (1/1000)
        True False False)) (0, 0) = None"
proof -
  have nn: "find_nearest_neighbours rect_engine
      [[PFloat (1/2), PFloat (1/2), PFloat (1/2)], [PFloat (1/2), PFloat (1/2), PFloat (3/2)]] 2
     = Inr [([0, 1], [0, 1]), ([0, 1], [1, 0])]"
    by (simp add: find_nearest_neighbours_def rect_engine_def nearest_def dist2_def
        power2_eq_square)
  have ik: "dict_of (zip [0..<2] [0, 1 :: int]) 0 = Some 0"
    by (simp add: dict_of_def upt_rec)
  show ?thesis
    using nn ik
      self_loops_never_created[of "dict_of (zip [0..<2] [0, 1])" 0 0 rect_engine
        "1/1000000" "1/10" "(0, 0, 0)" "((1, 0, 0), (0, 1, 0), (0, 0, 1))" NoPoly two_cubes
        two_cubes 10 "1/1000" True False False]
    by (simp add: two_cubes_no_edges)
qed

text \<open>
  C10. \<open>add_support\<close> takes \<open>attr_dict\<close> and keyword attributes and discards them:
  its result does not depend on them, and the node it inserts carries the default node
  attributes overwritten by the centroid coordinates and \<open>is_support = True\<close> only,
  whereas the node inserted by \<open>add_block\<close> carries the given attributes as well.
\<close>

theorem add_support_discards_attributes:
  assumes "max_int_key a + 1 \<notin> set (vertices a)"
  shows "add_support a b attr_dict kwattr = add_support a b None Map.empty
         \<and> node (snd (add_support a b attr_dict kwattr)) (fst (add_support a b attr_dict kwattr))
             = Some (default_vertex_attributes a
                      ++ (centroid_kw b)(''is_support'' \<mapsto> PBool True))
         \<and> node (snd (add_block a b attr_dict kwattr)) (fst (add_block a b attr_dict kwattr))
             = Some (default_vertex_attributes a
                      ++ (((case attr_dict of None \<Rightarrow> Map.empty | Some d \<Rightarrow> d) ++ kwattr)
                            ++ centroid_kw b))"
proof -
  have same: "add_support a b attr_dict kwattr = add_support a b None Map.empty"
    by (simp add: add_support_def)
  have sup: "node (snd (add_support a b attr_dict kwattr)) (fst (add_support a b attr_dict kwattr))
             = Some (default_vertex_attributes a
                      ++ (centroid_kw b)(''is_support'' \<mapsto> PBool True))"
    using add_vertex_fresh_node[OF assms, of None "(centroid_kw b)(''is_support'' \<mapsto> PBool True)"]
    by (simp add: add_support_def node_def case_prod_beta)
  have blk: "node (snd (add_block a b attr_dict kwattr)) (fst (add_block a b attr_dict kwattr))
             = Some (default_vertex_attributes a
                      ++ (((case attr_dict of None \<Rightarrow> Map.empty | Some d \<Rightarrow> d) ++ kwattr)
                            ++ centroid_kw b))"
    using add_vertex_fresh_node[OF assms,
        of "Some ((case attr_dict of None \<Rightarrow> Map.empty | Some d \<Rightarrow> d) ++ kwattr)" "centroid_kw b"]
    by (simp add: add_block_def node_def Let_def case_prod_beta)
  show ?thesis by (intro conjI same sup blk)
qed

theorem add_support_discards_attributes_witness:
  "max_int_key Assembly_init + 1 \<notin> set (vertices Assembly_init)
   \<and> add_support Assembly_init (cube (0, 0, 0)) (Some [''name'' \<mapsto> PStr ''B0''])
        [''is_support'' \<mapsto> PBool False]
      = add_support Assembly_init (cube (0, 0, 0)) None Map.empty
   \<and> fst (add_support Assembly_init (cube (0, 0, 0)) (Some [''name'' \<mapsto> PStr ''B0''])
        [''is_support'' \<mapsto> PBool False]) = 0
   \<and> map (the (node (snd (add_support Assembly_init (cube (0, 0, 0))
             (Some [''name'' \<mapsto> PStr ''B0'']) [''is_support'' \<mapsto> PBool False])) 0))
        [''x'', ''y'', ''z'', ''is_support'', ''name'']
      = [Some (PFloat (1/2)), Some (PFloat (1/2)), Some (PFloat (1/2)), Some (PBool True), None]
   \<and> map (the (node (snd (add_block Assembly_init (cube (0, 0, 0))
             (Some [''name'' \<mapsto> PStr ''B0'']) [''is_support'' \<mapsto> PBool False])) 0))
        [''x'', ''y'', ''z'', ''is_support'', ''name'']
      = [Some (PFloat (1/2)), Some (PFloat (1/2)), Some (PFloat (1/2)), Some (PBool False),
         Some (PStr ''B0'')]"
proof -
  let ?ad = "Some [''name'' \<mapsto> PStr ''B0'']"
  let ?kw = "[''is_support'' \<mapsto> PBool False]"
  have fresh: "max_int_key Assembly_init + 1 \<notin> set (vertices Assembly_init)"
    by (simp add: Assembly_init_def vertices_def)
  note t = add_support_discards_attributes[OF fresh, of "cube (0, 0, 0)" ?ad ?kw]
  have k: "fst (add_support Assembly_init (cube (0, 0, 0)) ?ad ?kw) = 0"
    by (simp add: add_support_def add_vertex_def Assembly_init_def Let_def)
  have kb: "fst (add_block Assembly_init (cube (0, 0, 0)) ?ad ?kw) = 0"
    by (simp add: add_block_def add_vertex_def Assembly_init_def Let_def)
  have sup: "map (the (node (snd (add_support Assembly_init (cube (0, 0, 0)) ?ad ?kw)) 0))
        [''x'', ''y'', ''z'', ''is_support'', ''name'']
      = [Some (PFloat (1/2)), Some (PFloat (1/2)), Some (PFloat (1/2)), Some (PBool True), None]"
    using t[THEN conjunct2, THEN conjunct1] unfolding k
    by (simp add: Assembly_init_def centroid_kw_def cube_def)
  have blk: "map (the (node (snd (add_block Assembly_init (cube (0, 0, 0)) ?ad ?kw)) 0))
        [''x'', ''y'', ''z'', ''is_support'', ''name'']
      = [Some (PFloat (1/2)), Some (PFloat (1/2)), Some (PFloat (1/2)), Some (PBool False),
         Some (PStr ''B0'')]"
    using t[THEN conjunct2, THEN conjunct2] unfolding kb
    by (simp add: Assembly_init_def centroid_kw_def cube_def)
  show ?thesis
    by (intro conjI fresh t[THEN conjunct1] k sup blk)
qed

end
